theory Spec2Isabelle
  imports Main "HOL-Library.Char_ord" "HOL-Library.List_Lexorder"
begin

section \<open>File synchronizer (packages/core/src/sync/synchronizer.ts)\<close>

subsection \<open>File states\<close>

text \<open>
  \<^verbatim>\<open>Map<string, string>\<close> (relative path to content hash) is an association list in
  the map's iteration order, which is its insertion order. A JavaScript map holds each
  key once, so the lists that stand for maps have distinct keys; the theorems that need
  this say so. \<^verbatim>\<open>has\<close>, \<^verbatim>\<open>get\<close> and \<^verbatim>\<open>keys\<close> are below; the entries are the
  list itself.
\<close>

type_synonym fileState = "(string \<times> string) list"

definition has :: "fileState \<Rightarrow> string \<Rightarrow> bool" where
  "has m k = (map_of m k \<noteq> None)"

definition get :: "fileState \<Rightarrow> string \<Rightarrow> string option" where
  "get m k = map_of m k"

definition keys :: "fileState \<Rightarrow> string list" where
  "keys m = map fst m"

text \<open>
  String concatenation with the result of \<^verbatim>\<open>get\<close>: JavaScript prints a missing value
  as the text \<^verbatim>\<open>undefined\<close>.
\<close>

definition getText :: "fileState \<Rightarrow> string \<Rightarrow> string" where
  "getText m k = (case get m k of Some h \<Rightarrow> h | None \<Rightarrow> ''undefined'')"

subsection \<open>compareStates\<close>

record 'a changes =
  added :: "'a list"
  removed :: "'a list"
  modified :: "'a list"

definition noChanges :: "'a changes" where
  "noChanges = \<lparr>added = [], removed = [], modified = []\<rparr>"

text \<open>
  The first loop of \<^verbatim>\<open>compareStates\<close> walks the entries of the new map and pushes the
  path to \<^verbatim>\<open>added\<close> or to \<^verbatim>\<open>modified\<close>; the accumulator is the pair of the two lists.
\<close>

fun compareNew :: "fileState \<Rightarrow> (string \<times> string) list \<Rightarrow> string list \<times> string list
    \<Rightarrow> string list \<times> string list" where
  "compareNew oldHashes [] (addedAcc, modifiedAcc) = (addedAcc, modifiedAcc)"
| "compareNew oldHashes ((file, hash) # rest) (addedAcc, modifiedAcc) =
     (if \<not> has oldHashes file then
        compareNew oldHashes rest (addedAcc @ [file], modifiedAcc)
      else if get oldHashes file \<noteq> Some hash then
        compareNew oldHashes rest (addedAcc, modifiedAcc @ [file])
      else compareNew oldHashes rest (addedAcc, modifiedAcc))"

text \<open>The second loop walks the keys of the old map and pushes to \<^verbatim>\<open>removed\<close>.\<close>

fun compareOld :: "fileState \<Rightarrow> string list \<Rightarrow> string list \<Rightarrow> string list" where
  "compareOld newHashes [] removedAcc = removedAcc"
| "compareOld newHashes (file # rest) removedAcc =
     (if \<not> has newHashes file then compareOld newHashes rest (removedAcc @ [file])
      else compareOld newHashes rest removedAcc)"

definition compareStates :: "fileState \<Rightarrow> fileState \<Rightarrow> string changes" where
  "compareStates oldHashes newHashes =
     (case compareNew oldHashes newHashes ([], []) of
        (addedL, modifiedL) \<Rightarrow>
          \<lparr>added = addedL,
           removed = compareOld newHashes (keys oldHashes) [],
           modified = modifiedL\<rparr>)"

subsection \<open>Strings\<close>

text \<open>
  The string methods the matcher uses. A string is a list of characters;
  \<^verbatim>\<open>slice(1)\<close> is \<^term>\<open>drop 1\<close>, \<^verbatim>\<open>slice(0, -1)\<close> is \<^term>\<open>butlast\<close> and
  \<^verbatim>\<open>slice(0, -3)\<close> takes all but the last three characters. \<^verbatim>\<open>includes\<close> with a
  string of one character is \<open>includesChar\<close>.
\<close>

definition startsWith :: "string \<Rightarrow> string \<Rightarrow> bool" where
  "startsWith s pre = (take (length pre) s = pre)"

definition endsWith :: "string \<Rightarrow> string \<Rightarrow> bool" where
  "endsWith s suf = (length suf \<le> length s \<and> drop (length s - length suf) s = suf)"

definition includesChar :: "string \<Rightarrow> char \<Rightarrow> bool" where
  "includesChar s c = (c \<in> set s)"

text \<open>
  \<^verbatim>\<open>trim\<close> removes white space at both ends: tab, line feed, vertical tab, form feed,
  carriage return, space and the no-break space (the white space of JavaScript that an
  8-bit character can hold).
\<close>

definition isWhiteSpace :: "char \<Rightarrow> bool" where
  "isWhiteSpace c =
     (c \<in> set [CHR 0x09, CHR 0x0A, CHR 0x0B, CHR 0x0C, CHR 0x0D, CHR 0x20, CHR 0xA0])"

definition dropTrailing :: "(char \<Rightarrow> bool) \<Rightarrow> string \<Rightarrow> string" where
  "dropTrailing P s = rev (dropWhile P (rev s))"

definition trim :: "string \<Rightarrow> string" where
  "trim s = dropTrailing isWhiteSpace (dropWhile isWhiteSpace s)"

text \<open>
  \<^verbatim>\<open>s.split(sep)\<close> for a separator of one character: the empty string gives one empty
  part, and a separator at either end gives an empty part there.
\<close>

fun splitOn :: "char \<Rightarrow> string \<Rightarrow> string list" where
  "splitOn sep [] = [[]]"
| "splitOn sep (c # cs) =
     (if c = sep then [] # splitOn sep cs
      else (case splitOn sep cs of
              part # parts \<Rightarrow> (c # part) # parts
            | [] \<Rightarrow> [[c]]))"

text \<open>
  The two \<^verbatim>\<open>replace\<close> calls that normalize the path: every backslash becomes a slash,
  then the run of slashes at the start and the run of slashes at the end are removed.
\<close>

definition backslash :: char where
  "backslash = CHR 0x5C"

definition normalizePath :: "string \<Rightarrow> string" where
  "normalizePath relativePath =
     (let slashed = map (\<lambda>c. if c = backslash then CHR ''/'' else c) relativePath
      in dropTrailing (\<lambda>c. c = CHR ''/'') (dropWhile (\<lambda>c. c = CHR ''/'') slashed))"

subsection \<open>shouldIgnore and matchGitignorePattern\<close>

text \<open>
  \<^verbatim>\<open>minimatch\<close> is a library outside the repository. The matcher takes it as the
  parameter \<open>mm\<close>, called with the path, the pattern and the options, as the source does.
  The source assigns its variable \<^verbatim>\<open>pattern\<close> three times: \<open>pattern0\<close> is the trimmed
  pattern, \<open>pattern1\<close> the pattern without its leading slash and \<open>pattern\<close> the one
  without its trailing slash. The parameter \<^verbatim>\<open>pathWithSlash\<close> is not read by the source.
\<close>

record minimatchOpts =
  dot :: bool
  nocase :: bool
  matchBase :: bool

type_synonym matcher = "string \<Rightarrow> string \<Rightarrow> minimatchOpts \<Rightarrow> bool"

definition matchGitignorePattern ::
    "matcher \<Rightarrow> string \<Rightarrow> string \<Rightarrow> string \<Rightarrow> bool \<Rightarrow> bool" where
  "matchGitignorePattern mm normalizedPath pathWithSlash rawPattern isDirectory =
     (if rawPattern = [] \<or> startsWith rawPattern ''#'' then False
      else
        let pattern0 = trim rawPattern in
        if pattern0 = [] then False
        else if startsWith pattern0 ''!'' then False
        else
          let isRootRelative = startsWith pattern0 ''/'';
              isDirectoryPattern = endsWith pattern0 ''/'';
              pattern1 = (if isRootRelative then drop 1 pattern0 else pattern0);
              pattern = (if isDirectoryPattern then butlast pattern1 else pattern1);
              hasSlash = includesChar pattern CHR ''/'';
              minimatchOpts = \<lparr>dot = False, nocase = False,
                               matchBase = (\<not> hasSlash \<and> \<not> isRootRelative)\<rparr>
          in
          if isDirectoryPattern then
            (if isDirectory \<and> mm normalizedPath pattern minimatchOpts then True
             else if isDirectory \<and> \<not> isRootRelative
                     \<and> mm normalizedPath (''**/'' @ pattern) minimatchOpts then True
             else
               let dirGlob = pattern @ ''/**'' in
               if mm normalizedPath dirGlob minimatchOpts then True
               else if \<not> isRootRelative \<and> mm normalizedPath (''**/'' @ dirGlob) minimatchOpts
               then True
               else False)
          else if isRootRelative then
            (if mm normalizedPath pattern minimatchOpts then True
             else if mm normalizedPath (pattern @ ''/**'') minimatchOpts then True
             else False)
          else if hasSlash then
            (if endsWith pattern ''/**''
                \<and> mm normalizedPath (take (length pattern - 3) pattern) minimatchOpts then True
             else if mm normalizedPath pattern minimatchOpts then True
             else if mm normalizedPath (pattern @ ''/**'') minimatchOpts then True
             else if mm normalizedPath (''**/'' @ pattern) minimatchOpts then True
             else mm normalizedPath (''**/'' @ pattern @ ''/**'') minimatchOpts)
          else mm normalizedPath pattern minimatchOpts)"

text \<open>The loop over the configured patterns, which returns at the first match.\<close>

fun matchAnyPattern :: "matcher \<Rightarrow> string \<Rightarrow> string \<Rightarrow> bool \<Rightarrow> string list \<Rightarrow> bool" where
  "matchAnyPattern mm normalizedPath pathToCheck isDirectory [] = False"
| "matchAnyPattern mm normalizedPath pathToCheck isDirectory (rawPattern # rest) =
     (if matchGitignorePattern mm normalizedPath pathToCheck rawPattern isDirectory then True
      else matchAnyPattern mm normalizedPath pathToCheck isDirectory rest)"

text \<open>
  \<^verbatim>\<open>shouldIgnore\<close>, with \<^verbatim>\<open>path.sep\<close> (a slash on POSIX, a backslash on Windows) as
  the parameter \<open>sep\<close> and the field \<^verbatim>\<open>this.ignorePatterns\<close> as \<open>patterns\<close>.
\<close>

definition hasHiddenPart :: "char \<Rightarrow> string \<Rightarrow> bool" where
  "hasHiddenPart sep relativePath =
     list_ex (\<lambda>part. startsWith part ''.'') (splitOn sep relativePath)"

definition shouldIgnore :: "char \<Rightarrow> matcher \<Rightarrow> string list \<Rightarrow> string \<Rightarrow> bool \<Rightarrow> bool" where
  "shouldIgnore sep mm patterns relativePath isDirectory =
     (if hasHiddenPart sep relativePath then True
      else if length patterns = 0 then False
      else
        let normalizedPath = normalizePath relativePath in
        if normalizedPath = [] then False
        else
          let pathToCheck = (if isDirectory then normalizedPath @ ''/'' else normalizedPath)
          in matchAnyPattern mm normalizedPath pathToCheck isDirectory patterns)"

subsection \<open>A model of minimatch\<close>

text \<open>
  Modelled from the spec: \<^verbatim>\<open>minimatch\<close>, the glob matcher that
  \<^verbatim>\<open>matchGitignorePattern\<close> calls, is not among the sources. The model follows the
  source's own summary of the pattern language, section 4.1 of the specification and
  the documented behaviour of the library for the options the source passes:
  \<^verbatim>\<open>**\<close> matches any number of directories, \<^verbatim>\<open>*\<close> matches anything except a slash,
  and with \<^verbatim>\<open>dot: false\<close> no wildcard matches a part that starts with a dot. It
  covers patterns made of literal characters, \<^verbatim>\<open>*\<close>, \<^verbatim>\<open>?\<close> and \<^verbatim>\<open>**\<close>, a comment
  (\<^verbatim>\<open>#\<close>) and a negation (\<^verbatim>\<open>!\<close>) at the start; brackets, braces, extended globs and
  escapes are outside it, and \<^verbatim>\<open>nocase\<close> is read as false, the only value the source
  passes.
\<close>

text \<open>One part of a pattern against one part of a path.\<close>

fun globPart :: "string \<Rightarrow> string \<Rightarrow> bool" where
  "globPart [] [] = True"
| "globPart [] (c # cs) = False"
| "globPart (p # ps) [] = (p = CHR ''*'' \<and> globPart ps [])"
| "globPart (p # ps) (c # cs) =
     (if p = CHR ''*'' then globPart ps (c # cs) \<or> globPart (p # ps) cs
      else (p = CHR ''?'' \<or> p = c) \<and> globPart ps cs)"

definition partMatches :: "minimatchOpts \<Rightarrow> string \<Rightarrow> string \<Rightarrow> bool" where
  "partMatches opts p f =
     (if startsWith f ''.''
      then (startsWith p ''.'' \<or> (dot opts \<and> f \<noteq> ''.'' \<and> f \<noteq> ''..'')) \<and> globPart p f
      else globPart p f)"

text \<open>A part that \<^verbatim>\<open>**\<close> never swallows.\<close>

definition dotted :: "minimatchOpts \<Rightarrow> string \<Rightarrow> bool" where
  "dotted opts f =
     (if f = ''.'' \<or> f = ''..'' then True
      else if dot opts then False
      else startsWith f ''.'')"

text \<open>
  Splitting at runs of slashes, as the library splits both the path and the pattern: a run
  of slashes separates two parts, and a run at either end gives one empty part there.
\<close>

fun splitSlashes :: "string \<Rightarrow> string list" where
  "splitSlashes [] = [[]]"
| "splitSlashes (c # cs) =
     (if c = CHR ''/'' then
        (if startsWith cs ''/'' then splitSlashes cs else [] # splitSlashes cs)
      else (case splitSlashes cs of
              part # parts \<Rightarrow> (c # part) # parts
            | [] \<Rightarrow> [[c]]))"

text \<open>The parts of the path against the parts of the pattern.\<close>

fun matchOne :: "minimatchOpts \<Rightarrow> string list \<Rightarrow> string list \<Rightarrow> bool" where
  "matchOne opts [] [] = True"
| "matchOne opts (f # fs) [] = (fs = [] \<and> f = [])"
| "matchOne opts [] (p # ps) = False"
| "matchOne opts (f # fs) (p # ps) =
     (if p = ''**'' then
        (if ps = [] then list_all (\<lambda>x. \<not> dotted opts x) (f # fs)
         else if matchOne opts (f # fs) ps then True
         else if dotted opts f then False
         else matchOne opts fs (p # ps))
      else partMatches opts p f \<and> matchOne opts fs ps)"

definition baseName :: "string list \<Rightarrow> string" where
  "baseName parts =
     (case filter (\<lambda>part. part \<noteq> []) (rev parts) of
        part # _ \<Rightarrow> part
      | [] \<Rightarrow> [])"

definition minimatch :: matcher where
  "minimatch p pattern opts =
     (if startsWith pattern ''#'' then False
      else if pattern = [] then p = []
      else
        let bangs = takeWhile (\<lambda>c. c = CHR ''!'') pattern;
            negate = odd (length bangs);
            patternParts = splitSlashes (dropWhile (\<lambda>c. c = CHR ''!'') pattern);
            f = splitSlashes p;
            file = (if matchBase opts \<and> length patternParts = 1 then [baseName f] else f)
        in matchOne opts file patternParts \<noteq> negate)"

subsection \<open>The fingerprint tree\<close>

text \<open>
  Modelled from the spec: the class \<^verbatim>\<open>MerkleDAG\<close> (\<^verbatim>\<open>./merkle\<close>) is not among the sources.
  By the specification a node is an opaque identifier plus a content string, the tree is
  a flat list of nodes with one root, it is content-addressed, and
  \<^verbatim>\<open>addNode(content, parentId?)\<close> returns the identifier of the node it adds. Here a
  tree is the list of its nodes in the order they were added, a node records its parent,
  and the identifier of a node is \<open>nid\<close> of its content, for a function \<open>nid\<close> that
  every definition takes as a parameter.
\<close>

record 'id node =
  node_id :: 'id
  node_data :: string
  node_parent :: "'id option"

type_synonym 'id dag = "'id node list"

definition addNode :: "(string \<Rightarrow> 'id) \<Rightarrow> 'id dag \<Rightarrow> string \<Rightarrow> 'id option \<Rightarrow> 'id \<times> 'id dag" where
  "addNode nid dag content parentId =
     (nid content,
      dag @ [\<lparr>node_id = nid content, node_data = content, node_parent = parentId\<rparr>])"

text \<open>
  Modelled from the spec: \<^verbatim>\<open>MerkleDAG.compare(a, b)\<close> gives the added, removed and
  modified nodes over the identifiers and contents of the two trees: the identifiers only
  in \<open>b\<close>, those only in \<open>a\<close>, and those in both whose content differs. The
  synchronizer takes the comparison as the parameter \<open>cmp\<close>; this one instantiates it.
\<close>

definition findNode :: "'id dag \<Rightarrow> 'id \<Rightarrow> 'id node option" where
  "findNode dag i = find (\<lambda>n. node_id n = i) dag"

definition compare :: "'id dag \<Rightarrow> 'id dag \<Rightarrow> 'id changes" where
  "compare a b =
     \<lparr>added = map node_id (filter (\<lambda>n. findNode a (node_id n) = None) b),
      removed = map node_id (filter (\<lambda>n. findNode b (node_id n) = None) a),
      modified = map node_id (filter (\<lambda>n.
         (case findNode b (node_id n) of
            Some m \<Rightarrow> node_data m \<noteq> node_data n
          | None \<Rightarrow> False)) a)\<rparr>"

text \<open>
  \<^verbatim>\<open>buildMerkleDAG\<close>. The root's string is built by \<^verbatim>\<open>keys.forEach\<close>, so in the
  order of \<^verbatim>\<open>keys\<close>; the leaves are added in the order of \<^verbatim>\<open>sortedPaths\<close>. The
  default \<^verbatim>\<open>sort()\<close> of an array of strings orders them by their code units, which
  is the lexicographic order of the character lists.
\<close>

definition buildMerkleDAG :: "(string \<Rightarrow> 'id) \<Rightarrow> fileState \<Rightarrow> 'id dag" where
  "buildMerkleDAG nid hashes =
     (let dag = [];
          ks = keys hashes;
          sortedPaths = sort ks;
          valuesString = foldl (\<lambda>acc key. acc @ getText hashes key) [] ks;
          rootNodeData = ''root:'' @ valuesString
      in case addNode nid dag rootNodeData None of
           (rootNodeId, dag1) \<Rightarrow>
             foldl (\<lambda>d path. snd (addNode nid d (path @ '':'' @ getText hashes path)
                                    (Some rootNodeId)))
                   dag1 sortedPaths)"

text \<open>The nodes without a parent, and the content of the root when there is exactly one.\<close>

definition rootNodes :: "'id dag \<Rightarrow> 'id node list" where
  "rootNodes dag = filter (\<lambda>n. node_parent n = None) dag"

definition rootContent :: "'id dag \<Rightarrow> string option" where
  "rootContent dag = (case rootNodes dag of [r] \<Rightarrow> Some (node_data r) | _ \<Rightarrow> None)"

text \<open>
  The root content as the specification words it: the concatenation of all hashes in
  sorted-path order.
\<close>

definition specRootContent :: "fileState \<Rightarrow> string" where
  "specRootContent hashes = concat (map (getText hashes) (sort (keys hashes)))"

subsection \<open>The synchronizer and its snapshot\<close>

text \<open>
  The file system, \<^verbatim>\<open>os\<close>, \<^verbatim>\<open>path\<close> and \<^verbatim>\<open>crypto\<close> are the host: a record of the
  functions the source calls. The state of the disk is a value of type \<open>'w\<close>; a file
  operation returns the error it throws, if any, and the disk it leaves. An error carries
  the \<^verbatim>\<open>code\<close> and the \<^verbatim>\<open>message\<close> the source reads. The content of the snapshot
  file is the pair of the list of entries and the tree, not its JSON text. Console output
  is left out.
\<close>

record ioError =
  code :: string
  message :: string

record 'id snapshotData =
  snap_fileHashes :: "(string \<times> string option) list"
  snap_merkleDAG :: "'id dag"

record ('w, 'id) host =
  homedir :: string
  pathJoin :: "string list \<Rightarrow> string"
  pathResolve :: "string \<Rightarrow> string"
  pathDirname :: "string \<Rightarrow> string"
  md5Hex :: "string \<Rightarrow> string"
  mkdir :: "'w \<Rightarrow> string \<Rightarrow> ioError option \<times> 'w"
  writeFile :: "'w \<Rightarrow> string \<Rightarrow> 'id snapshotData \<Rightarrow> ioError option \<times> 'w"
  unlink :: "'w \<Rightarrow> string \<Rightarrow> ioError option \<times> 'w"

record 'id synchronizer =
  fileHashes :: fileState
  merkleDAG :: "'id dag"
  rootDir :: string
  snapshotPath :: string
  ignorePatterns :: "string list"

definition getSnapshotPath :: "('w, 'id) host \<Rightarrow> string \<Rightarrow> string" where
  "getSnapshotPath h codebasePath =
     (let merkleDir = pathJoin h [homedir h, ''.context'', ''merkle''];
          normalizedPath = pathResolve h codebasePath;
          hash = md5Hex h normalizedPath
      in pathJoin h [merkleDir, hash @ ''.json''])"

definition saveSnapshot :: "('w, 'id) host \<Rightarrow> 'id synchronizer \<Rightarrow> 'w \<Rightarrow> ioError option \<times> 'w" where
  "saveSnapshot h s w =
     (let merkleDir = pathDirname h (snapshotPath s) in
      case mkdir h w merkleDir of
        (Some e, w1) \<Rightarrow> (Some e, w1)
      | (None, w1) \<Rightarrow>
          let fileHashesArray = map (\<lambda>key. (key, get (fileHashes s) key)) (keys (fileHashes s));
              data = \<lparr>snap_fileHashes = fileHashesArray, snap_merkleDAG = merkleDAG s\<rparr>
          in writeFile h w1 (snapshotPath s) data)"

text \<open>
  \<^verbatim>\<open>checkForChanges\<close>. \<open>newFileHashes\<close> is the result of
  \<^verbatim>\<open>generateFileHashes(this.rootDir)\<close>, the scan of the directory tree. The result is
  the diff or the error thrown, the synchronizer and the disk afterwards. The fields are
  assigned before the snapshot is saved, so they keep the new values when saving fails.
\<close>

definition checkForChanges ::
    "('w, 'id) host \<Rightarrow> ('id dag \<Rightarrow> 'id dag \<Rightarrow> 'id changes) \<Rightarrow> (string \<Rightarrow> 'id) \<Rightarrow> fileState
     \<Rightarrow> 'id synchronizer \<Rightarrow> 'w \<Rightarrow> (ioError + string changes) \<times> 'id synchronizer \<times> 'w" where
  "checkForChanges h cmp nid newFileHashes s w =
     (let newMerkleDAG = buildMerkleDAG nid newFileHashes;
          changes = cmp (merkleDAG s) newMerkleDAG
      in if length (added changes) > 0 \<or> length (removed changes) > 0
            \<or> length (modified changes) > 0
         then
           let fileChanges = compareStates (fileHashes s) newFileHashes;
               s1 = s\<lparr>fileHashes := newFileHashes, merkleDAG := newMerkleDAG\<rparr>
           in case saveSnapshot h s1 w of
                (Some e, w1) \<Rightarrow> (Inl e, s1, w1)
              | (None, w1) \<Rightarrow> (Inr fileChanges, s1, w1)
         else (Inr \<lparr>added = [], removed = [], modified = []\<rparr>, s, w))"

text \<open>
  \<^verbatim>\<open>deleteSnapshot\<close>: a failure of \<^verbatim>\<open>unlink\<close> whose code is \<^verbatim>\<open>ENOENT\<close> is caught, any
  other is thrown again.
\<close>

definition deleteSnapshot :: "('w, 'id) host \<Rightarrow> string \<Rightarrow> 'w \<Rightarrow> (ioError + unit) \<times> 'w" where
  "deleteSnapshot h codebasePath w =
     (let merkleDir = pathJoin h [homedir h, ''.context'', ''merkle''];
          normalizedPath = pathResolve h codebasePath;
          hash = md5Hex h normalizedPath;
          snapshotPath = pathJoin h [merkleDir, hash @ ''.json'']
      in case unlink h w snapshotPath of
           (None, w1) \<Rightarrow> (Inr (), w1)
         | (Some error, w1) \<Rightarrow>
             if code error = ''ENOENT'' then (Inr (), w1) else (Inl error, w1))"

subsection \<open>A disk in memory\<close>

text \<open>
  A host to run the model on: the disk is the list of its files with their contents and a
  list of paths that may not be written or removed. Removing a path that is not there fails
  with \<^verbatim>\<open>ENOENT\<close>, touching a protected path fails with \<^verbatim>\<open>EACCES\<close>. Paths are joined with
  slashes, and the digest of a path is the path without its slashes.
\<close>

record 'id disk =
  files :: "(string \<times> 'id snapshotData) list"
  protected :: "string list"

definition memJoin :: "string list \<Rightarrow> string" where
  "memJoin parts = foldr (\<lambda>part acc. if acc = [] then part else part @ ''/'' @ acc) parts []"

definition memWriteFile :: "'id disk \<Rightarrow> string \<Rightarrow> 'id snapshotData \<Rightarrow> ioError option \<times> 'id disk" where
  "memWriteFile d p data =
     (if p \<in> set (protected d)
      then (Some \<lparr>code = ''EACCES'', message = ''permission denied''\<rparr>, d)
      else (None, d\<lparr>files := (p, data) # filter (\<lambda>e. fst e \<noteq> p) (files d)\<rparr>))"

definition memUnlink :: "'id disk \<Rightarrow> string \<Rightarrow> ioError option \<times> 'id disk" where
  "memUnlink d p =
     (if map_of (files d) p = None
      then (Some \<lparr>code = ''ENOENT'', message = ''no such file or directory''\<rparr>, d)
      else if p \<in> set (protected d)
      then (Some \<lparr>code = ''EACCES'', message = ''permission denied''\<rparr>, d)
      else (None, d\<lparr>files := filter (\<lambda>e. fst e \<noteq> p) (files d)\<rparr>))"

definition memHost :: "(string disk, string) host" where
  "memHost =
     \<lparr>homedir = ''/home/user'',
      pathJoin = memJoin,
      pathResolve = (\<lambda>p. p),
      pathDirname = (\<lambda>p. rev (drop 1 (dropWhile (\<lambda>c. c \<noteq> CHR ''/'') (rev p)))),
      md5Hex = (\<lambda>p. filter (\<lambda>c. c \<noteq> CHR ''/'') p),
      mkdir = (\<lambda>d p. (None, d)),
      writeFile = memWriteFile,
      unlink = memUnlink\<rparr>"

subsection \<open>Predicates and values used in the statements\<close>

text \<open>A comparison that reports no added, removed or modified entry.\<close>

definition reportsNothing :: "'a changes \<Rightarrow> bool" where
  "reportsNothing c = (added c = [] \<and> removed c = [] \<and> modified c = [])"

text \<open>The three lists of a diff are free of duplicates and pairwise disjoint.\<close>

definition disjointDiff :: "string changes \<Rightarrow> bool" where
  "disjointDiff d =
     (distinct (added d) \<and> distinct (removed d) \<and> distinct (modified d)
      \<and> set (added d) \<inter> set (removed d) = {}
      \<and> set (added d) \<inter> set (modified d) = {}
      \<and> set (removed d) \<inter> set (modified d) = {})"

text \<open>A raw pattern that is empty, a comment or a negation.\<close>

definition inertPattern :: "string \<Rightarrow> bool" where
  "inertPattern rawPattern =
     (rawPattern = [] \<or> startsWith rawPattern ''#'' \<or> startsWith rawPattern ''!'')"

text \<open>The options \<^verbatim>\<open>matchGitignorePattern\<close> passes for a root-relative pattern.\<close>

definition rootOpts :: minimatchOpts where
  "rootOpts = \<lparr>dot = False, nocase = False, matchBase = False\<rparr>"

text \<open>The content of the root and the leaf of a path, as \<^verbatim>\<open>buildMerkleDAG\<close> makes them.\<close>

definition rootData :: "fileState \<Rightarrow> string" where
  "rootData hashes = ''root:'' @ concat (map (getText hashes) (keys hashes))"

definition leafNode :: "(string \<Rightarrow> 'id) \<Rightarrow> fileState \<Rightarrow> string \<Rightarrow> 'id node" where
  "leafNode nid hashes path =
     \<lparr>node_id = nid (path @ '':'' @ getText hashes path),
      node_data = path @ '':'' @ getText hashes path,
      node_parent = Some (nid (rootData hashes))\<rparr>"

text \<open>\<^verbatim>\<open>shouldIgnore\<close> on POSIX with the model of the library.\<close>

definition posixIgnore :: "string list \<Rightarrow> string \<Rightarrow> bool \<Rightarrow> bool" where
  "posixIgnore patterns relativePath isDirectory =
     shouldIgnore CHR ''/'' minimatch patterns relativePath isDirectory"

text \<open>Node identifiers for the examples: the identifier of a node is its content.\<close>

definition contentId :: "string \<Rightarrow> string" where
  "contentId content = content"

text \<open>
  A run on the disk in memory: the synchronizer holds the state \<open>exOld\<close>, the scan
  finds \<open>exNew\<close>, and the check leaves the synchronizer \<open>exSync1\<close> and the disk
  \<open>exDisk1\<close>.
\<close>

definition exOld :: fileState where
  "exOld = [(''a'', ''h1''), (''b'', ''h2'')]"

definition exNew :: fileState where
  "exNew = [(''b'', ''h2''), (''c'', ''h3'')]"

definition exPath :: string where
  "exPath = ''/home/user/.context/merkle/repo.json''"

definition exSync :: "string synchronizer" where
  "exSync = \<lparr>fileHashes = exOld, merkleDAG = buildMerkleDAG contentId exOld,
             rootDir = ''/repo'', snapshotPath = exPath, ignorePatterns = []\<rparr>"

definition exSync1 :: "string synchronizer" where
  "exSync1 = \<lparr>fileHashes = exNew, merkleDAG = buildMerkleDAG contentId exNew,
              rootDir = ''/repo'', snapshotPath = exPath, ignorePatterns = []\<rparr>"

definition exDisk :: "string disk" where
  "exDisk = \<lparr>files = [], protected = []\<rparr>"

definition exDisk1 :: "string disk" where
  "exDisk1 = \<lparr>files = [(exPath,
       \<lparr>snap_fileHashes = [(''b'', Some ''h2''), (''c'', Some ''h3'')],
        snap_merkleDAG = buildMerkleDAG contentId exNew\<rparr>)], protected = []\<rparr>"

definition exLocked :: "string disk" where
  "exLocked = \<lparr>files = [(exPath, \<lparr>snap_fileHashes = [], snap_merkleDAG = []\<rparr>)],
               protected = [exPath]\<rparr>"

subsection \<open>The scan of the directory tree\<close>

text \<open>
  \<^verbatim>\<open>Map.set\<close>: the value of a key that is there is replaced where it stands, a new key
  goes to the end.
\<close>

fun mapSet :: "fileState \<Rightarrow> string \<Rightarrow> string \<Rightarrow> fileState" where
  "mapSet [] k v = [(k, v)]"
| "mapSet ((k', v') # m) k v = (if k' = k then (k, v) # m else (k', v') # mapSet m k v)"

text \<open>
  What the scan reads of the host: \<^verbatim>\<open>readdir\<close> with the type of each entry, \<^verbatim>\<open>stat\<close>,
  \<^verbatim>\<open>readFile\<close>, the SHA-256 digest and \<^verbatim>\<open>path.relative\<close>. A call returns the error it
  throws or its result; none of them changes the disk.
\<close>

record dirent =
  entryName :: string
  entryIsDirectory :: bool

datatype fileKind = Directory | RegularFile | OtherKind

record 'w reader =
  readdir :: "'w \<Rightarrow> string \<Rightarrow> ioError + dirent list"
  stat :: "'w \<Rightarrow> string \<Rightarrow> ioError + fileKind"
  readFile :: "'w \<Rightarrow> string \<Rightarrow> ioError + string"
  sha256Hex :: "string \<Rightarrow> string"
  pathRelative :: "string \<Rightarrow> string \<Rightarrow> string"

text \<open>
  \<^verbatim>\<open>hashFile\<close>. The error it throws for a directory is a plain \<^verbatim>\<open>Error\<close>, which has
  no code.
\<close>

definition hashFile :: "'w reader \<Rightarrow> 'w \<Rightarrow> string \<Rightarrow> ioError + string" where
  "hashFile r w filePath =
     (case stat r w filePath of
        Inl e \<Rightarrow> Inl e
      | Inr kind \<Rightarrow>
          if kind = Directory
          then Inl \<lparr>code = [], message = ''Attempted to hash a directory: '' @ filePath\<rparr>
          else (case readFile r w filePath of
                  Inl e \<Rightarrow> Inl e
                | Inr content \<Rightarrow> Inr (sha256Hex r content)))"

text \<open>
  The body of the loop of \<^verbatim>\<open>generateFileHashes\<close> for one entry: \<open>hashes\<close> is the map
  built so far and \<open>recurse\<close> the call for a subdirectory. Every caught error leaves the
  map as it is and goes on with the next entry; the warnings are left out.
\<close>

definition scanEntry ::
    "(string \<Rightarrow> fileState option) \<Rightarrow> ('w, 'id) host \<Rightarrow> 'w reader \<Rightarrow> char \<Rightarrow> matcher
     \<Rightarrow> string list \<Rightarrow> string \<Rightarrow> 'w \<Rightarrow> string \<Rightarrow> dirent \<Rightarrow> fileState \<Rightarrow> fileState option" where
  "scanEntry recurse h r sep mm patterns root w dir entry hashes =
     (let fullPath = pathJoin h [dir, entryName entry];
          relativePath = pathRelative r root fullPath
      in if shouldIgnore sep mm patterns relativePath (entryIsDirectory entry) then Some hashes
         else
           case stat r w fullPath of
             Inl e \<Rightarrow> Some hashes
           | Inr kind \<Rightarrow>
               if kind = Directory then
                 (if \<not> shouldIgnore sep mm patterns relativePath True then
                    (case recurse fullPath of
                       None \<Rightarrow> None
                     | Some subHashes \<Rightarrow>
                         Some (foldl (\<lambda>m e. mapSet m (fst e) (snd e)) hashes subHashes))
                  else Some hashes)
               else if kind = RegularFile then
                 (if \<not> shouldIgnore sep mm patterns relativePath False then
                    (case hashFile r w fullPath of
                       Inl e \<Rightarrow> Some hashes
                     | Inr hash \<Rightarrow> Some (mapSet hashes relativePath hash))
                  else Some hashes)
               else Some hashes)"

fun scanEntries ::
    "(string \<Rightarrow> fileState option) \<Rightarrow> ('w, 'id) host \<Rightarrow> 'w reader \<Rightarrow> char \<Rightarrow> matcher
     \<Rightarrow> string list \<Rightarrow> string \<Rightarrow> 'w \<Rightarrow> string \<Rightarrow> dirent list \<Rightarrow> fileState \<Rightarrow> fileState option" where
  "scanEntries recurse h r sep mm patterns root w dir [] hashes = Some hashes"
| "scanEntries recurse h r sep mm patterns root w dir (entry # rest) hashes =
     (case scanEntry recurse h r sep mm patterns root w dir entry hashes of
        None \<Rightarrow> None
      | Some hashes1 \<Rightarrow> scanEntries recurse h r sep mm patterns root w dir rest hashes1)"

text \<open>
  \<^verbatim>\<open>generateFileHashes\<close>. The host may hold directories nested without end, so the
  recursion carries a bound on its depth and returns \<open>None\<close> when the bound is used up.
\<close>

fun generateFileHashes ::
    "('w, 'id) host \<Rightarrow> 'w reader \<Rightarrow> char \<Rightarrow> matcher \<Rightarrow> string list \<Rightarrow> string \<Rightarrow> 'w
     \<Rightarrow> nat \<Rightarrow> string \<Rightarrow> fileState option" where
  "generateFileHashes h r sep mm patterns root w 0 dir = None"
| "generateFileHashes h r sep mm patterns root w (Suc depth) dir =
     (case readdir r w dir of
        Inl e \<Rightarrow> Some []
      | Inr entries \<Rightarrow>
          scanEntries (generateFileHashes h r sep mm patterns root w depth)
            h r sep mm patterns root w dir entries [])"

text \<open>
  \<^verbatim>\<open>checkForChanges\<close> with its scan: the first statement of the source runs
  \<^verbatim>\<open>generateFileHashes(this.rootDir)\<close> on the disk, the rest is \<open>checkForChanges\<close> above.
  \<open>checkTwice\<close> calls it twice in a row, the second time on the synchronizer and the disk
  that the first call left, and returns the two results.
\<close>

definition checkForChangesOnDisk ::
    "('w, 'id) host \<Rightarrow> 'w reader \<Rightarrow> ('id dag \<Rightarrow> 'id dag \<Rightarrow> 'id changes) \<Rightarrow> (string \<Rightarrow> 'id)
     \<Rightarrow> char \<Rightarrow> matcher \<Rightarrow> nat \<Rightarrow> 'id synchronizer \<Rightarrow> 'w
     \<Rightarrow> ((ioError + string changes) \<times> 'id synchronizer \<times> 'w) option" where
  "checkForChangesOnDisk h r cmp nid sep mm depth s w =
     (case generateFileHashes h r sep mm (ignorePatterns s) (rootDir s) w depth (rootDir s) of
        None \<Rightarrow> None
      | Some newFileHashes \<Rightarrow> Some (checkForChanges h cmp nid newFileHashes s w))"

definition checkTwice ::
    "('w, 'id) host \<Rightarrow> 'w reader \<Rightarrow> ('id dag \<Rightarrow> 'id dag \<Rightarrow> 'id changes) \<Rightarrow> (string \<Rightarrow> 'id)
     \<Rightarrow> char \<Rightarrow> matcher \<Rightarrow> nat \<Rightarrow> 'id synchronizer \<Rightarrow> 'w
     \<Rightarrow> ((ioError + string changes) \<times> (ioError + string changes)) option" where
  "checkTwice h r cmp nid sep mm depth s w =
     (case checkForChangesOnDisk h r cmp nid sep mm depth s w of
        None \<Rightarrow> None
      | Some (r1, s1, w1) \<Rightarrow>
          (case checkForChangesOnDisk h r cmp nid sep mm depth s1 w1 of
             None \<Rightarrow> None
           | Some (r2, s2, w2) \<Rightarrow> Some (r1, r2)))"

text \<open>
  The disk in memory, read by the scan. The text of a file is a rendering of the entries
  it holds, the digest of a text is the text itself, a directory is there when a file lies
  under it, and a path relative to a root is the path without the root and its slash.
\<close>

definition memRender :: "'id snapshotData \<Rightarrow> string" where
  "memRender data =
     ''{'' @ concat (map (\<lambda>e. fst e @ ''='' @ (case snd e of Some x \<Rightarrow> x | None \<Rightarrow> ''null'')
                              @ '';'') (snap_fileHashes data)) @ ''}''"

definition memUnder :: "'id disk \<Rightarrow> string \<Rightarrow> string list" where
  "memUnder d dir =
     map (\<lambda>e. drop (length dir + 1) (fst e))
       (filter (\<lambda>e. startsWith (fst e) (dir @ ''/'')) (files d))"

definition memReaddir :: "'id disk \<Rightarrow> string \<Rightarrow> ioError + dirent list" where
  "memReaddir d dir =
     (if memUnder d dir = []
      then Inl \<lparr>code = ''ENOENT'', message = ''no such file or directory''\<rparr>
      else Inr (remdups (map (\<lambda>rest. \<lparr>entryName = hd (splitOn CHR ''/'' rest),
                                        entryIsDirectory = (length (splitOn CHR ''/'' rest) > 1)\<rparr>)
                           (memUnder d dir))))"

definition memStat :: "'id disk \<Rightarrow> string \<Rightarrow> ioError + fileKind" where
  "memStat d p =
     (if map_of (files d) p \<noteq> None then Inr RegularFile
      else if memUnder d p \<noteq> [] then Inr Directory
      else Inl \<lparr>code = ''ENOENT'', message = ''no such file or directory''\<rparr>)"

definition memReadFile :: "'id disk \<Rightarrow> string \<Rightarrow> ioError + string" where
  "memReadFile d p =
     (case map_of (files d) p of
        Some data \<Rightarrow> Inr (memRender data)
      | None \<Rightarrow> Inl \<lparr>code = ''ENOENT'', message = ''no such file or directory''\<rparr>)"

definition memReader :: "string disk reader" where
  "memReader =
     \<lparr>readdir = memReaddir,
      stat = memStat,
      readFile = memReadFile,
      sha256Hex = (\<lambda>content. content),
      pathRelative = (\<lambda>root full. if startsWith full (root @ ''/'')
                                    then drop (length root + 1) full else full)\<rparr>"

text \<open>
  The synchronizer of the directory \<open>/home/user/.context\<close>, as \<^verbatim>\<open>initialize\<close> leaves it
  when the directory was empty: it holds no file, and its snapshot lies on the disk, under
  the directory it scans.
\<close>

definition ctxRoot :: string where
  "ctxRoot = ''/home/user/.context''"

definition ctxPath :: string where
  "ctxPath = ''/home/user/.context/merkle/homeuser.context.json''"

definition ctxSync :: "string synchronizer" where
  "ctxSync = \<lparr>fileHashes = [], merkleDAG = buildMerkleDAG contentId [],
              rootDir = ctxRoot, snapshotPath = ctxPath, ignorePatterns = []\<rparr>"

definition ctxDisk :: "string disk" where
  "ctxDisk = \<lparr>files = [(ctxPath, \<lparr>snap_fileHashes = [],
                                    snap_merkleDAG = buildMerkleDAG contentId []\<rparr>)],
              protected = []\<rparr>"

text \<open>
  The synchronizer \<open>exSync\<close> of the directory \<open>/repo\<close> on a disk that holds one file,
  and the synchronizer and the disk that its first check leaves.
\<close>

definition repoDisk :: "string disk" where
  "repoDisk = \<lparr>files = [(''/repo/src/a.ts'',
       \<lparr>snap_fileHashes = [(''k'', Some ''v'')], snap_merkleDAG = []\<rparr>)], protected = []\<rparr>"

definition repoSync1 :: "string synchronizer" where
  "repoSync1 = \<lparr>fileHashes = [(''src/a.ts'', ''{k=v;}'')],
                merkleDAG = buildMerkleDAG contentId [(''src/a.ts'', ''{k=v;}'')],
                rootDir = ''/repo'', snapshotPath = exPath, ignorePatterns = []\<rparr>"

definition repoDisk1 :: "string disk" where
  "repoDisk1 = \<lparr>files = [(exPath,
       \<lparr>snap_fileHashes = [(''src/a.ts'', Some ''{k=v;}'')],
        snap_merkleDAG = buildMerkleDAG contentId [(''src/a.ts'', ''{k=v;}'')]\<rparr>),
      (''/repo/src/a.ts'',
       \<lparr>snap_fileHashes = [(''k'', Some ''v'')], snap_merkleDAG = []\<rparr>)], protected = []\<rparr>"

subsection \<open>Properties of compareStates\<close>

lemma has_iff: "has m k \<longleftrightarrow> k \<in> fst ` set m"
  by (simp add: has_def map_of_eq_None_iff)

lemma compareNew_added:
  "fst (compareNew old new (a, m)) = a @ [f \<leftarrow> map fst new. \<not> has old f]"
  by (induction new arbitrary: a m) auto

lemma compareNew_modified:
  "snd (compareNew old new (a, m)) =
     m @ map fst [e \<leftarrow> new. has old (fst e) \<and> get old (fst e) \<noteq> Some (snd e)]"
  by (induction new arbitrary: a m) auto

lemma compareOld_removed:
  "compareOld new ks r = r @ [f \<leftarrow> ks. \<not> has new f]"
  by (induction ks arbitrary: r) auto

lemma compareStates_added: "added (compareStates old new) = [f \<leftarrow> keys new. \<not> has old f]"
  using compareNew_added [of old new "[]" "[]"]
  by (auto simp: compareStates_def keys_def split: prod.splits)

lemma compareStates_modified:
  "modified (compareStates old new) =
     map fst [e \<leftarrow> new. has old (fst e) \<and> get old (fst e) \<noteq> Some (snd e)]"
  using compareNew_modified [of old new "[]" "[]"]
  by (auto simp: compareStates_def split: prod.splits)

lemma compareStates_removed: "removed (compareStates old new) = [f \<leftarrow> keys old. \<not> has new f]"
  by (simp add: compareStates_def compareOld_removed split: prod.splits)

lemma get_entry: "distinct (map fst m) \<Longrightarrow> (k, v) \<in> set m \<Longrightarrow> get m k = Some v"
  by (simp add: get_def)

lemma modified_set:
  assumes "distinct (keys new)"
  shows "set (modified (compareStates old new)) =
           {p. \<exists>h h'. get old p = Some h \<and> get new p = Some h' \<and> h \<noteq> h'}"
proof -
  have d: "distinct (map fst new)" using assms by (simp add: keys_def)
  show ?thesis
  proof (intro set_eqI iffI)
    fix p assume "p \<in> set (modified (compareStates old new))"
    then obtain h' where e: "(p, h') \<in> set new" "has old p" "get old p \<noteq> Some h'"
      by (auto simp: compareStates_modified)
    from e(2) obtain h where "get old p = Some h" by (auto simp: has_def get_def)
    moreover have "get new p = Some h'" using d e(1) by (rule get_entry)
    ultimately show "p \<in> {p. \<exists>h h'. get old p = Some h \<and> get new p = Some h' \<and> h \<noteq> h'}"
      using e(3) by auto
  next
    fix p assume "p \<in> {p. \<exists>h h'. get old p = Some h \<and> get new p = Some h' \<and> h \<noteq> h'}"
    then obtain h h' where g: "get old p = Some h" "get new p = Some h'" "h \<noteq> h'" by blast
    have "(p, h') \<in> set new" using g(2) by (simp add: get_def map_of_SomeD)
    moreover have "has old p" using g(1) by (simp add: has_def get_def)
    ultimately show "p \<in> set (modified (compareStates old new))"
      using g by (force simp: compareStates_modified)
  qed
qed

lemma compareStates_same:
  assumes "distinct (keys m)"
  shows "compareStates m m = noChanges"
proof -
  have d: "distinct (map fst m)" using assms by (simp add: keys_def)
  have "[e \<leftarrow> m. has m (fst e) \<and> get m (fst e) \<noteq> Some (snd e)] = []"
    using d by (auto simp: filter_empty_conv get_def)
  moreover have "[f \<leftarrow> keys m. \<not> has m f] = []"
    by (auto simp: filter_empty_conv keys_def has_iff)
  ultimately have "added (compareStates m m) = [] \<and> removed (compareStates m m) = []
      \<and> modified (compareStates m m) = []"
    by (simp add: compareStates_added compareStates_removed compareStates_modified)
  then show ?thesis by (cases "compareStates m m") (simp add: noChanges_def)
qed

lemma compareStates_disjoint:
  assumes "distinct (keys old)" "distinct (keys new)"
  shows "disjointDiff (compareStates old new)"
proof -
  let ?r = "compareStates old new"
  have dn: "distinct (map fst new)" and do: "distinct (map fst old)"
    using assms by (simp_all add: keys_def)
  have m: "distinct (modified ?r)"
    unfolding compareStates_modified using dn by (rule distinct_map_filter)
  have a: "distinct (added ?r)" and r: "distinct (removed ?r)"
    using dn do by (simp_all add: compareStates_added compareStates_removed keys_def)
  have sa: "set (added ?r) \<subseteq> {p. has new p \<and> \<not> has old p}"
    by (auto simp: compareStates_added keys_def has_iff)
  have sr: "set (removed ?r) \<subseteq> {p. has old p \<and> \<not> has new p}"
    by (auto simp: compareStates_removed keys_def has_iff)
  have sm: "set (modified ?r) \<subseteq> {p. has old p \<and> has new p}"
    by (force simp: compareStates_modified has_iff)
  show ?thesis
    unfolding disjointDiff_def using a r m sa sr sm by blast
qed

lemma ex_compareStates:
  "compareStates exOld exNew = \<lparr>added = [''c''], removed = [''a''], modified = []\<rparr>"
  by (simp add: exOld_def exNew_def compareStates_def keys_def has_def get_def)

text \<open>
  Claim C4. For every pair of path-to-hash mappings, \<^verbatim>\<open>compareStates\<close> returns as
  added exactly the paths of the new mapping that the old one lacks, as removed exactly
  the paths of the old mapping that the new one lacks, and as modified exactly the paths
  of both whose hashes differ; the old mapping \<open>{a: h1, b: h2}\<close> and the new mapping
  \<open>{b: h2, c: h3}\<close> give added \<open>[c]\<close>, removed \<open>[a]\<close> and modified \<open>[]\<close>.
\<close>

theorem compareStates_exact:
  assumes "distinct (keys newHashes)"
  shows "set (added (compareStates oldHashes newHashes))
           = {p. has newHashes p \<and> \<not> has oldHashes p}
       \<and> set (removed (compareStates oldHashes newHashes))
           = {p. has oldHashes p \<and> \<not> has newHashes p}
       \<and> set (modified (compareStates oldHashes newHashes))
           = {p. \<exists>h h'. get oldHashes p = Some h \<and> get newHashes p = Some h' \<and> h \<noteq> h'}
       \<and> compareStates [(''a'', ''h1''), (''b'', ''h2'')] [(''b'', ''h2''), (''c'', ''h3'')]
           = \<lparr>added = [''c''], removed = [''a''], modified = []\<rparr>"
proof (intro conjI)
  show "set (added (compareStates oldHashes newHashes))
          = {p. has newHashes p \<and> \<not> has oldHashes p}"
    by (auto simp: compareStates_added keys_def has_iff)
  show "set (removed (compareStates oldHashes newHashes))
          = {p. has oldHashes p \<and> \<not> has newHashes p}"
    by (auto simp: compareStates_removed keys_def has_iff)
  show "set (modified (compareStates oldHashes newHashes))
          = {p. \<exists>h h'. get oldHashes p = Some h \<and> get newHashes p = Some h' \<and> h \<noteq> h'}"
    using assms by (rule modified_set)
  show "compareStates [(''a'', ''h1''), (''b'', ''h2'')] [(''b'', ''h2''), (''c'', ''h3'')]
          = \<lparr>added = [''c''], removed = [''a''], modified = []\<rparr>"
    using ex_compareStates by (simp add: exOld_def exNew_def)
qed

text \<open>
  Witness for C4: the old mapping \<open>{w: 0, x: 1, y: 9}\<close> and the new mapping
  \<open>{x: 1, y: 2, z: 3}\<close> give the added set \<open>{z}\<close>, the removed set \<open>{w}\<close> and the
  modified set \<open>{y}\<close>.
\<close>

theorem compareStates_exact_witness:
  "distinct (keys [(''x'', ''1''), (''y'', ''2''), (''z'', ''3'')])
   \<and> set (added (compareStates [(''w'', ''0''), (''x'', ''1''), (''y'', ''9'')]
                                 [(''x'', ''1''), (''y'', ''2''), (''z'', ''3'')])) = {''z''}
   \<and> set (removed (compareStates [(''w'', ''0''), (''x'', ''1''), (''y'', ''9'')]
                                   [(''x'', ''1''), (''y'', ''2''), (''z'', ''3'')])) = {''w''}
   \<and> set (modified (compareStates [(''w'', ''0''), (''x'', ''1''), (''y'', ''9'')]
                                    [(''x'', ''1''), (''y'', ''2''), (''z'', ''3'')])) = {''y''}"
proof -
  have d: "distinct (keys [(''x'', ''1''), (''y'', ''2''), (''z'', ''3'')])"
    by (simp add: keys_def)
  have v: "compareStates [(''w'', ''0''), (''x'', ''1''), (''y'', ''9'')]
                         [(''x'', ''1''), (''y'', ''2''), (''z'', ''3'')]
           = \<lparr>added = [''z''], removed = [''w''], modified = [''y'']\<rparr>"
    by (simp add: compareStates_def keys_def has_def get_def)
  note t = compareStates_exact [OF d, of "[(''w'', ''0''), (''x'', ''1''), (''y'', ''9'')]"]
  show ?thesis using d t by (simp add: v)
qed

subsection \<open>Properties of checkForChanges\<close>

lemma checkForChanges_gate_closed:
  assumes "reportsNothing (cmp (merkleDAG s) (buildMerkleDAG nid newFileHashes))"
  shows "checkForChanges h cmp nid newFileHashes s w = (Inr noChanges, s, w)"
  using assms by (simp add: checkForChanges_def reportsNothing_def noChanges_def Let_def)

lemma checkForChanges_gate_open:
  assumes "\<not> reportsNothing (cmp (merkleDAG s) (buildMerkleDAG nid newFileHashes))"
  shows "checkForChanges h cmp nid newFileHashes s w =
     (case saveSnapshot h (s\<lparr>fileHashes := newFileHashes,
                              merkleDAG := buildMerkleDAG nid newFileHashes\<rparr>) w of
        (Some e, w1) \<Rightarrow>
          (Inl e, s\<lparr>fileHashes := newFileHashes,
                    merkleDAG := buildMerkleDAG nid newFileHashes\<rparr>, w1)
      | (None, w1) \<Rightarrow>
          (Inr (compareStates (fileHashes s) newFileHashes),
           s\<lparr>fileHashes := newFileHashes, merkleDAG := buildMerkleDAG nid newFileHashes\<rparr>,
           w1))"
  using assms by (auto simp: checkForChanges_def reportsNothing_def Let_def)

lemma checkForChanges_diff:
  assumes "fst (checkForChanges h cmp nid newFileHashes s w) = Inr d"
  shows "d = noChanges \<or> d = compareStates (fileHashes s) newFileHashes"
proof (cases "reportsNothing (cmp (merkleDAG s) (buildMerkleDAG nid newFileHashes))")
  case True
  then have "checkForChanges h cmp nid newFileHashes s w = (Inr noChanges, s, w)"
    by (rule checkForChanges_gate_closed)
  with assms show ?thesis by simp
next
  case False
  then show ?thesis
    using assms
      checkForChanges_gate_open [where cmp = cmp and s = s and nid = nid
        and newFileHashes = newFileHashes and h = h and w = w]
    by (auto split: prod.splits option.splits)
qed

lemma disjointDiff_noChanges: "disjointDiff noChanges"
  by (simp add: disjointDiff_def noChanges_def)

subsection \<open>Properties of buildMerkleDAG\<close>

lemma foldl_append_concat: "foldl (\<lambda>acc k. acc @ f k) a ks = a @ concat (map f ks)"
  by (induction ks arbitrary: a) simp_all

lemma foldl_addNode:
  "foldl (\<lambda>d path. snd (addNode nid d (g path) par)) d0 ps =
     d0 @ map (\<lambda>path. \<lparr>node_id = nid (g path), node_data = g path, node_parent = par\<rparr>) ps"
  by (induction ps arbitrary: d0) (simp_all add: addNode_def)

lemma getText_keys:
  assumes "distinct (keys hashes)"
  shows "map (getText hashes) (keys hashes) = map snd hashes"
proof -
  have "distinct (map fst hashes)" using assms by (simp add: keys_def)
  then have "\<forall>e \<in> set hashes. getText hashes (fst e) = snd e"
    by (auto simp: getText_def get_def)
  then show ?thesis by (simp add: keys_def)
qed

lemma buildMerkleDAG_eq:
  "buildMerkleDAG nid hashes =
     \<lparr>node_id = nid (rootData hashes), node_data = rootData hashes, node_parent = None\<rparr>
     # map (leafNode nid hashes) (sort (keys hashes))"
  by (simp add: buildMerkleDAG_def Let_def addNode_def foldl_append_concat foldl_addNode
      rootData_def leafNode_def)

lemma rootNodes_build:
  "rootNodes (buildMerkleDAG nid hashes) =
     [\<lparr>node_id = nid (rootData hashes), node_data = rootData hashes, node_parent = None\<rparr>]"
  by (simp add: buildMerkleDAG_eq rootNodes_def leafNode_def filter_empty_conv)

lemma rootContent_build: "rootContent (buildMerkleDAG nid hashes) = Some (rootData hashes)"
  by (simp add: rootContent_def rootNodes_build)

lemma concat_fixed_inj:
  assumes "\<forall>x \<in> set xs. length x = L" "\<forall>y \<in> set ys. length y = L" "0 < L"
      and "concat xs = concat ys"
  shows "xs = ys"
  using assms
proof (induction xs arbitrary: ys)
  case Nil
  then show ?case by (cases ys) auto
next
  case (Cons x xs)
  show ?case
  proof (cases ys)
    case Nil
    with Cons.prems show ?thesis by auto
  next
    case (Cons y ys')
    with Cons.prems have "length x = length y" by simp
    with Cons.prems Cons have "x = y" "concat xs = concat ys'" by auto
    with Cons.IH [of ys'] Cons.prems Cons show ?thesis by simp
  qed
qed

text \<open>
  Claim C1, as stated, fails: the root content is not the concatenation of the hashes in
  sorted-path order. For the mapping \<open>{b: 1, a: 2}\<close>, inserted in that order, the root
  holds \<open>root:12\<close>, where the claim gives \<open>21\<close>.
\<close>

theorem buildMerkleDAG_root_counterexample:
  "rootContent (buildMerkleDAG contentId [(''b'', ''1''), (''a'', ''2'')]) = Some ''root:12''
   \<and> specRootContent [(''b'', ''1''), (''a'', ''2'')] = ''21''
   \<and> rootContent (buildMerkleDAG contentId [(''b'', ''1''), (''a'', ''2'')])
       \<noteq> Some (specRootContent [(''b'', ''1''), (''a'', ''2'')])"
  by (simp add: rootContent_build rootData_def specRootContent_def keys_def getText_def get_def)

text \<open>
  Claim C1, amended. For every FileState, \<^verbatim>\<open>buildMerkleDAG\<close> constructs exactly one
  root node, whose content is \<open>root:\<close> followed by the concatenation of all the mapping's
  hashes in the mapping's own iteration order, and after it one leaf per path, in sorted
  path order, whose content is the path, a colon and the hash, and whose parent is the
  root.
\<close>

theorem buildMerkleDAG_nodes:
  assumes "distinct (keys hashes)"
  shows "buildMerkleDAG nid hashes =
           \<lparr>node_id = nid (''root:'' @ concat (map snd hashes)),
            node_data = ''root:'' @ concat (map snd hashes),
            node_parent = None\<rparr>
           # map (\<lambda>path. \<lparr>node_id = nid (path @ '':'' @ getText hashes path),
                          node_data = path @ '':'' @ getText hashes path,
                          node_parent = Some (nid (''root:'' @ concat (map snd hashes)))\<rparr>)
                 (sort (keys hashes))
       \<and> rootNodes (buildMerkleDAG nid hashes) =
           [\<lparr>node_id = nid (''root:'' @ concat (map snd hashes)),
             node_data = ''root:'' @ concat (map snd hashes),
             node_parent = None\<rparr>]"
  using getText_keys [OF assms]
  by (simp add: rootNodes_build) (simp add: buildMerkleDAG_eq rootData_def leafNode_def)

text \<open>
  Witness for C1: the tree of \<open>{b: 1, a: 2}\<close> is the root \<open>root:12\<close> followed by the
  leaves \<open>a:2\<close> and \<open>b:1\<close>.
\<close>

theorem buildMerkleDAG_nodes_witness:
  "distinct (keys [(''b'', ''1''), (''a'', ''2'')])
   \<and> buildMerkleDAG contentId [(''b'', ''1''), (''a'', ''2'')] =
       [\<lparr>node_id = ''root:12'', node_data = ''root:12'', node_parent = None\<rparr>,
        \<lparr>node_id = ''a:2'', node_data = ''a:2'', node_parent = Some ''root:12''\<rparr>,
        \<lparr>node_id = ''b:1'', node_data = ''b:1'', node_parent = Some ''root:12''\<rparr>]
   \<and> rootNodes (buildMerkleDAG contentId [(''b'', ''1''), (''a'', ''2'')]) =
       [\<lparr>node_id = ''root:12'', node_data = ''root:12'', node_parent = None\<rparr>]"
proof -
  have d: "distinct (keys [(''b'', ''1''), (''a'', ''2'')])" by (simp add: keys_def)
  show ?thesis
    using d buildMerkleDAG_nodes [OF d, of contentId]
    by (simp add: keys_def getText_def get_def rootNodes_def contentId_def)
qed

text \<open>
  Claim C2, as stated, fails in both directions. The mappings \<open>{a: h}\<close> and \<open>{b: h}\<close>
  differ and have the same root content; the mapping \<open>{a: 1, b: 2}\<close> inserted in the
  two possible orders is one mapping with two root contents.
\<close>

theorem rootContent_counterexample:
  "rootContent (buildMerkleDAG contentId [(''a'', ''h'')])
     = rootContent (buildMerkleDAG contentId [(''b'', ''h'')])
   \<and> map_of [(''a'', ''h'')] \<noteq> map_of [(''b'', ''h'')]
   \<and> map_of [(''a'', ''1''), (''b'', ''2'')] = map_of [(''b'', ''2''), (''a'', ''1'')]
   \<and> rootContent (buildMerkleDAG contentId [(''a'', ''1''), (''b'', ''2'')])
       \<noteq> rootContent (buildMerkleDAG contentId [(''b'', ''2''), (''a'', ''1'')])"
proof (intro conjI)
  show "map_of [(''a'', ''h'')] \<noteq> map_of [(''b'', ''h'')]"
  proof
    assume "map_of [(''a'', ''h'')] = map_of [(''b'', ''h'')]"
    then have "map_of [(''a'', ''h'')] ''a'' = map_of [(''b'', ''h'')] ''a''" by simp
    then show False by simp
  qed
  show "map_of [(''a'', ''1''), (''b'', ''2'')] = map_of [(''b'', ''2''), (''a'', ''1'')]"
    by (auto simp: fun_eq_iff)
qed (simp_all add: rootContent_build rootData_def keys_def getText_def get_def)

text \<open>
  Claim C2, amended. For two FileStates whose hashes all have one length, which is not
  zero, the root nodes of the two trees have equal content if and only if the two
  sequences of hashes, each in its mapping's iteration order, are equal.
\<close>

theorem rootContent_eq_iff:
  assumes "distinct (keys a)" and "distinct (keys b)"
      and "list_all (\<lambda>h. length h = L) (map snd a)"
      and "list_all (\<lambda>h. length h = L) (map snd b)"
      and "0 < L"
  shows "(rootContent (buildMerkleDAG nid a) = rootContent (buildMerkleDAG nid b))
         = (map snd a = map snd b)"
proof -
  have "(rootContent (buildMerkleDAG nid a) = rootContent (buildMerkleDAG nid b))
        = (concat (map snd a) = concat (map snd b))"
    using getText_keys [OF assms(1)] getText_keys [OF assms(2)]
    by (simp add: rootContent_build rootData_def)
  also have "\<dots> = (map snd a = map snd b)"
    using assms(3-5) concat_fixed_inj [of "map snd a" L "map snd b"]
    by (auto simp: list_all_iff)
  finally show ?thesis .
qed

text \<open>
  Witness for C2: with hashes of length two, \<open>{a: h1, b: h2}\<close> and \<open>{b: h2, c: h3}\<close>
  have different hash sequences and different root contents.
\<close>

theorem rootContent_eq_iff_witness:
  "distinct (keys exOld) \<and> distinct (keys exNew)
   \<and> list_all (\<lambda>h. length h = 2) (map snd exOld)
   \<and> list_all (\<lambda>h. length h = 2) (map snd exNew)
   \<and> (0::nat) < 2
   \<and> map snd exOld \<noteq> map snd exNew
   \<and> rootContent (buildMerkleDAG contentId exOld) \<noteq> rootContent (buildMerkleDAG contentId exNew)"
proof -
  have d1: "distinct (keys exOld)" and d2: "distinct (keys exNew)"
    by (simp_all add: exOld_def exNew_def keys_def)
  have l1: "list_all (\<lambda>h. length h = 2) (map snd exOld)"
    and l2: "list_all (\<lambda>h. length h = 2) (map snd exNew)"
    by (simp_all add: exOld_def exNew_def)
  have p: "(0::nat) < 2" by simp
  have n: "map snd exOld \<noteq> map snd exNew" by (simp add: exOld_def exNew_def)
  show ?thesis
    using d1 d2 l1 l2 n rootContent_eq_iff [OF d1 d2 l1 l2 p, of contentId] by simp
qed

subsection \<open>The modelled comparison of a tree with itself\<close>

lemma compare_self:
  assumes "\<forall>n \<in> set d. \<forall>m \<in> set d. node_id n = node_id m \<longrightarrow> node_data n = node_data m"
  shows "reportsNothing (compare d d)"
proof -
  have found: "findNode d (node_id n) \<noteq> None" if "n \<in> set d" for n
    using that by (auto simp: findNode_def find_None_iff)
  have same: "node_data m = node_data n" if "n \<in> set d" "findNode d (node_id n) = Some m" for n m
  proof -
    from that(2) have "m \<in> set d" "node_id m = node_id n"
      by (auto simp: findNode_def find_Some_iff in_set_conv_nth)
    with that(1) assms show ?thesis by metis
  qed
  have "filter (\<lambda>n. findNode d (node_id n) = None) d = []"
    using found by (simp add: filter_empty_conv)
  moreover have "filter (\<lambda>n. (case findNode d (node_id n) of
                       Some m \<Rightarrow> node_data m \<noteq> node_data n | None \<Rightarrow> False)) d = []"
    using same by (auto simp: filter_empty_conv split: option.splits)
  ultimately show ?thesis by (simp add: reportsNothing_def compare_def)
qed

lemma buildMerkleDAG_content_addressed:
  "n \<in> set (buildMerkleDAG nid hashes) \<Longrightarrow> node_id n = nid (node_data n)"
  by (auto simp: buildMerkleDAG_eq leafNode_def)

lemma compare_build_self:
  assumes "inj nid"
  shows "reportsNothing (compare (buildMerkleDAG nid hashes) (buildMerkleDAG nid hashes))"
proof (rule compare_self, intro ballI impI)
  fix n m
  assume "n \<in> set (buildMerkleDAG nid hashes)" "m \<in> set (buildMerkleDAG nid hashes)"
    and "node_id n = node_id m"
  then have "nid (node_data n) = nid (node_data m)"
    by (simp add: buildMerkleDAG_content_addressed)
  with assms show "node_data n = node_data m" by (simp add: inj_eq)
qed

subsection \<open>The example run\<close>

lemma ex_path: "getSnapshotPath memHost ''/repo'' = exPath"
  by (simp add: getSnapshotPath_def memHost_def memJoin_def exPath_def)

lemma ex_build_old:
  "buildMerkleDAG contentId exOld =
     [\<lparr>node_id = ''root:h1h2'', node_data = ''root:h1h2'', node_parent = None\<rparr>,
      \<lparr>node_id = ''a:h1'', node_data = ''a:h1'', node_parent = Some ''root:h1h2''\<rparr>,
      \<lparr>node_id = ''b:h2'', node_data = ''b:h2'', node_parent = Some ''root:h1h2''\<rparr>]"
  by (simp add: buildMerkleDAG_eq rootData_def leafNode_def exOld_def keys_def getText_def get_def
      contentId_def)

lemma ex_build_new:
  "buildMerkleDAG contentId exNew =
     [\<lparr>node_id = ''root:h2h3'', node_data = ''root:h2h3'', node_parent = None\<rparr>,
      \<lparr>node_id = ''b:h2'', node_data = ''b:h2'', node_parent = Some ''root:h2h3''\<rparr>,
      \<lparr>node_id = ''c:h3'', node_data = ''c:h3'', node_parent = Some ''root:h2h3''\<rparr>]"
  by (simp add: buildMerkleDAG_eq rootData_def leafNode_def exNew_def keys_def getText_def get_def
      contentId_def)

lemma ex_compare_old_new:
  "compare (buildMerkleDAG contentId exOld) (buildMerkleDAG contentId exNew) =
     \<lparr>added = [''root:h2h3'', ''c:h3''], removed = [''root:h1h2'', ''a:h1''], modified = []\<rparr>"
  by (simp add: ex_build_old ex_build_new compare_def findNode_def)

lemma ex_compare_new_new:
  "reportsNothing (compare (buildMerkleDAG contentId exNew) (buildMerkleDAG contentId exNew))"
  by (simp add: ex_build_new compare_def findNode_def reportsNothing_def)

lemma ex_save: "saveSnapshot memHost exSync1 exDisk = (None, exDisk1)"
  by (simp add: saveSnapshot_def memHost_def memWriteFile_def exSync1_def exDisk_def exDisk1_def
      exNew_def keys_def get_def Let_def)

lemma ex_first:
  "checkForChanges memHost compare contentId exNew exSync exDisk =
     (Inr \<lparr>added = [''c''], removed = [''a''], modified = []\<rparr>, exSync1, exDisk1)"
proof -
  have n: "\<not> reportsNothing (compare (merkleDAG exSync) (buildMerkleDAG contentId exNew))"
    by (simp add: exSync_def ex_compare_old_new reportsNothing_def)
  have s: "exSync\<lparr>fileHashes := exNew, merkleDAG := buildMerkleDAG contentId exNew\<rparr> = exSync1"
    by (simp add: exSync_def exSync1_def)
  have c: "compareStates (fileHashes exSync) exNew
             = \<lparr>added = [''c''], removed = [''a''], modified = []\<rparr>"
    by (simp add: exSync_def ex_compareStates)
  show ?thesis
    using n checkForChanges_gate_open [where cmp = compare and nid = contentId and s = exSync
        and newFileHashes = exNew and h = memHost and w = exDisk]
    by (simp add: s c ex_save)
qed

subsection \<open>The claims on checkForChanges\<close>

text \<open>
  Claim C3. Whenever the comparison of the held tree with the tree of the scan reports no
  added, removed or modified node, \<^verbatim>\<open>checkForChanges\<close> returns a diff whose three lists
  are empty, leaves the held FileState and tree as they were, and writes no snapshot: the
  synchronizer and the disk come back unchanged, for every host and every comparison.
\<close>

theorem checkForChanges_unchanged:
  assumes "reportsNothing (cmp (merkleDAG s) (buildMerkleDAG nid newFileHashes))"
  shows "checkForChanges h cmp nid newFileHashes s w
           = (Inr \<lparr>added = [], removed = [], modified = []\<rparr>, s, w)"
  using assms by (simp add: checkForChanges_def reportsNothing_def Let_def)

text \<open>
  Witness for C3: the synchronizer that holds \<open>exNew\<close> scans \<open>exNew\<close> again; the
  comparison reports nothing and the check returns the empty diff, the same synchronizer
  and the same disk.
\<close>

theorem checkForChanges_unchanged_witness:
  "reportsNothing (compare (merkleDAG exSync1) (buildMerkleDAG contentId exNew))
   \<and> checkForChanges memHost compare contentId exNew exSync1 exDisk1
       = (Inr \<lparr>added = [], removed = [], modified = []\<rparr>, exSync1, exDisk1)"
proof -
  have r: "reportsNothing (compare (merkleDAG exSync1) (buildMerkleDAG contentId exNew))"
    using ex_compare_new_new by (simp add: exSync1_def)
  show ?thesis
    using r checkForChanges_unchanged [where cmp = compare and nid = contentId and s = exSync1
        and newFileHashes = exNew and h = memHost and w = exDisk1]
    by simp
qed

lemma checkForChanges_keeps_fields:
  assumes "checkForChanges h cmp nid newFileHashes s w = (res, s1, w1)"
  shows "rootDir s1 = rootDir s \<and> ignorePatterns s1 = ignorePatterns s
         \<and> snapshotPath s1 = snapshotPath s"
  using assms unfolding checkForChanges_def Let_def
  by (simp split: if_splits prod.splits option.splits) auto

lemma twice_same_scan:
  assumes "distinct (keys scan)"
      and "checkForChanges h cmp nid scan s w = (r1, s1, w1)"
      and "checkForChanges h cmp nid scan s1 w1 = (r2, s2, w2)"
      and "reportsNothing (cmp (buildMerkleDAG nid scan) (buildMerkleDAG nid scan))
           \<or> fst (saveSnapshot h s1 w1) = None"
  shows "r2 = Inr \<lparr>added = [], removed = [], modified = []\<rparr>"
proof (cases "reportsNothing (cmp (merkleDAG s) (buildMerkleDAG nid scan))")
  case True
  then have "checkForChanges h cmp nid scan s w = (Inr noChanges, s, w)"
    by (rule checkForChanges_gate_closed)
  with assms(2) have "s1 = s" "w1 = w" by simp_all
  with True assms(3) show ?thesis by (simp add: checkForChanges_gate_closed noChanges_def)
next
  case False
  let ?D = "buildMerkleDAG nid scan"
  let ?s = "s\<lparr>fileHashes := scan, merkleDAG := ?D\<rparr>"
  have s1: "s1 = ?s"
    using assms(2) False
      checkForChanges_gate_open [where cmp = cmp and s = s and nid = nid
        and newFileHashes = scan and h = h and w = w]
    by (auto split: prod.splits option.splits)
  then have f: "fileHashes s1 = scan" and m: "merkleDAG s1 = ?D" by simp_all
  show ?thesis
  proof (cases "reportsNothing (cmp ?D ?D)")
    case True
    then have "reportsNothing (cmp (merkleDAG s1) ?D)" by (simp add: m)
    then have "checkForChanges h cmp nid scan s1 w1 = (Inr noChanges, s1, w1)"
      by (rule checkForChanges_gate_closed)
    with assms(3) show ?thesis by (simp add: noChanges_def)
  next
    case open2: False
    with assms(4) have sv: "fst (saveSnapshot h s1 w1) = None" by simp
    have n: "\<not> reportsNothing (cmp (merkleDAG s1) ?D)" using open2 by (simp add: m)
    have same: "s1\<lparr>fileHashes := scan, merkleDAG := ?D\<rparr> = s1" using s1 by simp
    have "compareStates (fileHashes s1) scan = noChanges"
      using assms(1) by (simp add: f compareStates_same)
    then show ?thesis
      using assms(3) sv n
        checkForChanges_gate_open [where cmp = cmp and s = s1 and nid = nid
          and newFileHashes = scan and h = h and w = w1]
      by (auto simp: same noChanges_def split: prod.splits option.splits)
  qed
qed

subsection \<open>Properties of the scan\<close>

lemma mapSet_keys:
  "keys (mapSet m k v) = (if k \<in> set (keys m) then keys m else keys m @ [k])"
proof (induction m)
  case Nil
  then show ?case by (simp add: keys_def)
next
  case (Cons e m)
  then show ?case by (cases e) (force simp: keys_def)
qed

lemma mapSet_distinct: "distinct (keys m) \<Longrightarrow> distinct (keys (mapSet m k v))"
  by (simp add: mapSet_keys)

lemma foldl_mapSet_distinct:
  "distinct (keys m) \<Longrightarrow> distinct (keys (foldl (\<lambda>m e. mapSet m (fst e) (snd e)) m es))"
  by (induction es arbitrary: m) (simp_all add: mapSet_distinct)

lemma scanEntry_distinct:
  assumes "distinct (keys hashes)"
      and "scanEntry recurse h r sep mm patterns root w dir entry hashes = Some m"
  shows "distinct (keys m)"
proof -
  have "m = hashes
        \<or> (\<exists>sub. m = foldl (\<lambda>m e. mapSet m (fst e) (snd e)) hashes sub)
        \<or> (\<exists>k v. m = mapSet hashes k v)"
    using assms(2) unfolding scanEntry_def Let_def
    by (simp split: if_splits sum.splits option.splits) blast+
  then show ?thesis
    using assms(1) foldl_mapSet_distinct mapSet_distinct by blast
qed

lemma scanEntries_distinct:
  "distinct (keys hashes)
   \<Longrightarrow> scanEntries recurse h r sep mm patterns root w dir entries hashes = Some m
   \<Longrightarrow> distinct (keys m)"
proof (induction entries arbitrary: hashes)
  case Nil
  then show ?case by simp
next
  case (Cons entry entries)
  from Cons.prems(2) obtain hashes1 where
    e: "scanEntry recurse h r sep mm patterns root w dir entry hashes = Some hashes1"
    and rest: "scanEntries recurse h r sep mm patterns root w dir entries hashes1 = Some m"
    by (auto split: option.splits)
  have "distinct (keys hashes1)" using Cons.prems(1) e by (rule scanEntry_distinct)
  then show ?case using rest by (rule Cons.IH)
qed

lemma generateFileHashes_distinct:
  assumes "generateFileHashes h r sep mm patterns root w depth dir = Some m"
  shows "distinct (keys m)"
proof (cases depth)
  case 0
  with assms show ?thesis by simp
next
  case (Suc n)
  show ?thesis
  proof (cases "readdir r w dir")
    case (Inl e)
    with assms Suc show ?thesis by (simp add: keys_def)
  next
    case (Inr entries)
    with assms Suc have
      "scanEntries (generateFileHashes h r sep mm patterns root w n)
         h r sep mm patterns root w dir entries [] = Some m"
      by simp
    moreover have "distinct (keys ([] :: fileState))" by (simp add: keys_def)
    ultimately show ?thesis by (rule scanEntries_distinct [rotated])
  qed
qed

lemma repo_scan:
  "generateFileHashes memHost memReader CHR ''/'' minimatch (ignorePatterns exSync)
      (rootDir exSync) repoDisk 3 (rootDir exSync) = Some [(''src/a.ts'', ''{k=v;}'')]"
  by code_simp

lemma repo_first:
  "checkForChanges memHost compare contentId [(''src/a.ts'', ''{k=v;}'')] exSync repoDisk
     = (Inr \<lparr>added = [''src/a.ts''], removed = [''a'', ''b''], modified = []\<rparr>,
        repoSync1, repoDisk1)"
  by code_simp

lemma repo_same:
  "generateFileHashes memHost memReader CHR ''/'' minimatch (ignorePatterns exSync)
      (rootDir exSync) repoDisk1 3 (rootDir exSync) = Some [(''src/a.ts'', ''{k=v;}'')]"
  by code_simp

lemma repo_ok:
  "reportsNothing (compare (buildMerkleDAG contentId [(''src/a.ts'', ''{k=v;}'')])
                           (buildMerkleDAG contentId [(''src/a.ts'', ''{k=v;}'')]))"
  by code_simp

subsection \<open>Two checks in a row\<close>

text \<open>
  Claim C8, as stated, fails when the snapshot lies inside the scanned tree. The
  synchronizer of \<open>/home/user/.context\<close> writes its snapshot to
  \<open>merkle/homeuser.context.json\<close> under its own root, a path with no hidden part. Its
  first check finds that file and writes the snapshot again, now with the file's hash in
  it; nothing else touches the disk, and the second check reports the file as modified.
\<close>

theorem checkForChanges_twice_counterexample:
  "checkTwice memHost memReader compare contentId CHR ''/'' minimatch 3 ctxSync ctxDisk
     = Some (Inr \<lparr>added = [''merkle/homeuser.context.json''], removed = [], modified = []\<rparr>,
             Inr \<lparr>added = [], removed = [],
                  modified = [''merkle/homeuser.context.json'']\<rparr>)"
  by code_simp

text \<open>
  Claim C8, amended. Two calls of \<^verbatim>\<open>checkForChanges\<close> in a row with no change of the file
  system between them: when the snapshot that the first call may have written does not
  change what the scan reads, so that the scan of the disk it leaves finds the FileState
  that the scan before it found, the second call returns and its diff has three empty
  lists. The first call may have returned a diff, nothing, or the error of a failed
  snapshot write. The comparison \<open>cmp\<close> is any function that reports nothing when it
  compares the tree of the scan with itself; where it does report something there, the
  second call still returns the empty diff when its snapshot write succeeds.
\<close>

theorem checkForChanges_twice:
  assumes scan1: "generateFileHashes h r sep mm (ignorePatterns s) (rootDir s) w depth (rootDir s)
                  = Some scan"
      and first: "checkForChanges h cmp nid scan s w = (r1, s1, w1)"
      and scan2: "generateFileHashes h r sep mm (ignorePatterns s) (rootDir s) w1 depth (rootDir s)
                  = Some scan"
      and ok: "reportsNothing (cmp (buildMerkleDAG nid scan) (buildMerkleDAG nid scan))
               \<or> fst (saveSnapshot h s1 w1) = None"
  shows "checkTwice h r cmp nid sep mm depth s w
           = Some (r1, Inr \<lparr>added = [], removed = [], modified = []\<rparr>)"
proof -
  have k: "rootDir s1 = rootDir s" "ignorePatterns s1 = ignorePatterns s"
    using checkForChanges_keeps_fields [OF first] by simp_all
  obtain r2 s2 w2 where c2: "checkForChanges h cmp nid scan s1 w1 = (r2, s2, w2)"
    by (cases "checkForChanges h cmp nid scan s1 w1")
  have d: "distinct (keys scan)" using scan1 by (rule generateFileHashes_distinct)
  have "r2 = Inr \<lparr>added = [], removed = [], modified = []\<rparr>"
    using d first c2 ok by (rule twice_same_scan)
  moreover have "checkForChangesOnDisk h r cmp nid sep mm depth s w = Some (r1, s1, w1)"
    by (simp add: checkForChangesOnDisk_def scan1 first)
  moreover have "checkForChangesOnDisk h r cmp nid sep mm depth s1 w1 = Some (r2, s2, w2)"
    by (simp add: checkForChangesOnDisk_def k scan2 c2)
  ultimately show ?thesis by (simp add: checkTwice_def)
qed

text \<open>
  Witness for C8: the synchronizer of \<open>/repo\<close>, which holds \<open>exOld\<close>, on the disk with
  the one file \<open>/repo/src/a.ts\<close>. The first check returns added \<open>[src/a.ts]\<close> and
  removed \<open>[a, b]\<close> and writes the snapshot outside \<open>/repo\<close>; the second returns the
  empty diff.
\<close>

theorem checkForChanges_twice_witness:
  "generateFileHashes memHost memReader CHR ''/'' minimatch (ignorePatterns exSync)
      (rootDir exSync) repoDisk 3 (rootDir exSync) = Some [(''src/a.ts'', ''{k=v;}'')]
   \<and> checkForChanges memHost compare contentId [(''src/a.ts'', ''{k=v;}'')] exSync repoDisk
     = (Inr \<lparr>added = [''src/a.ts''], removed = [''a'', ''b''], modified = []\<rparr>,
        repoSync1, repoDisk1)
   \<and> generateFileHashes memHost memReader CHR ''/'' minimatch (ignorePatterns exSync)
        (rootDir exSync) repoDisk1 3 (rootDir exSync) = Some [(''src/a.ts'', ''{k=v;}'')]
   \<and> reportsNothing (compare (buildMerkleDAG contentId [(''src/a.ts'', ''{k=v;}'')])
                             (buildMerkleDAG contentId [(''src/a.ts'', ''{k=v;}'')]))
   \<and> checkTwice memHost memReader compare contentId CHR ''/'' minimatch 3 exSync repoDisk
     = Some (Inr \<lparr>added = [''src/a.ts''], removed = [''a'', ''b''], modified = []\<rparr>,
             Inr \<lparr>added = [], removed = [], modified = []\<rparr>)"
proof -
  have ok: "reportsNothing (compare (buildMerkleDAG contentId [(''src/a.ts'', ''{k=v;}'')])
                                    (buildMerkleDAG contentId [(''src/a.ts'', ''{k=v;}'')]))
            \<or> fst (saveSnapshot memHost repoSync1 repoDisk1) = None"
    using repo_ok by simp
  show ?thesis
    using repo_scan repo_first repo_same repo_ok
      checkForChanges_twice [OF repo_scan repo_first repo_same ok]
    by simp
qed

text \<open>
  Claim C10. For every pair of path-to-hash mappings, the three lists that
  \<^verbatim>\<open>compareStates\<close> returns are free of duplicates and pairwise disjoint, and so are the
  three lists of every diff that \<^verbatim>\<open>checkForChanges\<close> returns for a synchronizer that
  holds the old mapping and a scan that finds the new one.
\<close>

theorem diff_lists_disjoint:
  assumes "distinct (keys oldHashes)" and "distinct (keys newHashes)"
  shows "disjointDiff (compareStates oldHashes newHashes)
       \<and> (fileHashes s = oldHashes \<and> fst (checkForChanges h cmp nid newHashes s w) = Inr d
            \<longrightarrow> disjointDiff d)"
proof (intro conjI impI)
  show c: "disjointDiff (compareStates oldHashes newHashes)"
    using assms by (rule compareStates_disjoint)
  assume a: "fileHashes s = oldHashes \<and> fst (checkForChanges h cmp nid newHashes s w) = Inr d"
  then have "d = noChanges \<or> d = compareStates (fileHashes s) newHashes"
    using checkForChanges_diff [of h cmp nid newHashes s w d] by simp
  with a c show "disjointDiff d" using disjointDiff_noChanges by auto
qed

text \<open>
  Witness for C10: the diff of \<open>exOld\<close> and \<open>exNew\<close>, computed by \<^verbatim>\<open>compareStates\<close>
  and returned by \<^verbatim>\<open>checkForChanges\<close>.
\<close>

theorem diff_lists_disjoint_witness:
  "distinct (keys exOld) \<and> distinct (keys exNew)
   \<and> fileHashes exSync = exOld
   \<and> fst (checkForChanges memHost compare contentId exNew exSync exDisk)
       = Inr \<lparr>added = [''c''], removed = [''a''], modified = []\<rparr>
   \<and> disjointDiff (compareStates exOld exNew)
   \<and> disjointDiff \<lparr>added = [''c''], removed = [''a''], modified = []\<rparr>"
proof -
  have d1: "distinct (keys exOld)" and d2: "distinct (keys exNew)"
    by (simp_all add: exOld_def exNew_def keys_def)
  have f: "fileHashes exSync = exOld" by (simp add: exSync_def)
  have r: "fst (checkForChanges memHost compare contentId exNew exSync exDisk)
             = Inr \<lparr>added = [''c''], removed = [''a''], modified = []\<rparr>"
    by (simp add: ex_first)
  note t = diff_lists_disjoint [OF d1 d2, where s = exSync and h = memHost and cmp = compare
      and nid = contentId and w = exDisk
      and d = "\<lparr>added = [''c''], removed = [''a''], modified = []\<rparr>"]
  show ?thesis using d1 d2 f r t by simp
qed

subsection \<open>Splitting paths\<close>

lemma splitOn_nonempty: "splitOn sep s \<noteq> []"
  by (induction s) (auto split: list.splits)

lemma splitOn_Cons_other:
  "c \<noteq> sep \<Longrightarrow> splitOn sep (c # cs) = (c # hd (splitOn sep cs)) # tl (splitOn sep cs)"
  using splitOn_nonempty [of sep cs] by (cases "splitOn sep cs") simp_all

lemma splitOn_Cons_sep: "splitOn sep (sep # cs) = [] # splitOn sep cs"
  by simp

lemma splitOn_append_sep: "splitOn sep (a @ sep # b) = splitOn sep a @ splitOn sep b"
proof (induction a)
  case Nil
  then show ?case by simp
next
  case (Cons c a)
  show ?case
  proof (cases "c = sep")
    case True
    with Cons show ?thesis by simp
  next
    case False
    have "splitOn sep a \<noteq> []" by (rule splitOn_nonempty)
    with False Cons show ?thesis
      by (simp add: splitOn_Cons_other del: splitOn.simps)
  qed
qed

lemma splitSlashes_nonempty: "splitSlashes s \<noteq> []"
  by (induction s) (auto split: list.splits)

lemma splitSlashes_Cons_other:
  "c \<noteq> CHR ''/'' \<Longrightarrow>
     splitSlashes (c # cs) = (c # hd (splitSlashes cs)) # tl (splitSlashes cs)"
  using splitSlashes_nonempty [of cs] by (cases "splitSlashes cs") simp_all

lemma splitSlashes_Cons_slash:
  "splitSlashes (CHR ''/'' # s) = [] # splitSlashes (dropWhile (\<lambda>c. c = CHR ''/'') s)"
  by (induction s) (simp_all add: startsWith_def)

lemma splitSlashes_parts:
  "hd (splitSlashes s) = hd (splitOn CHR ''/'' s)
   \<and> set (tl (splitSlashes s)) \<subseteq> set (tl (splitOn CHR ''/'' s))"
proof (induction s)
  case Nil
  then show ?case by simp
next
  case (Cons c s)
  show ?case
  proof (cases "c = CHR ''/''")
    case False
    with Cons show ?thesis
      by (simp add: splitSlashes_Cons_other splitOn_Cons_other del: splitSlashes.simps splitOn.simps)
  next
    case True
    show ?thesis
    proof (cases "startsWith s ''/''")
      case False
      with True Cons show ?thesis
        using splitSlashes_nonempty [of s] splitOn_nonempty [of "CHR ''/''" s]
        by (cases "splitSlashes s"; cases "splitOn CHR ''/'' s") auto
    next
      case sl: True
      then obtain t where t: "s = CHR ''/'' # t" by (cases s) (auto simp: startsWith_def)
      have "set (tl (splitOn CHR ''/'' s)) \<subseteq> set (splitOn CHR ''/'' s)"
        by (cases "splitOn CHR ''/'' s") auto
      with True sl Cons show ?thesis by (auto simp: t)
    qed
  qed
qed

lemma splitSlashes_subset: "set (splitSlashes s) \<subseteq> set (splitOn CHR ''/'' s)"
  using splitSlashes_parts [of s] splitSlashes_nonempty [of s] splitOn_nonempty [of "CHR ''/''" s]
  by (cases "splitSlashes s"; cases "splitOn CHR ''/'' s") auto

lemma splitOn_dropWhile_subset:
  "set (splitOn sep (dropWhile (\<lambda>c. c = sep) s)) \<subseteq> set (splitOn sep s)"
  by (induction s) auto

lemma splitOn_append_seps:
  "\<forall>c \<in> set t. c = sep \<Longrightarrow> set (splitOn sep a) \<subseteq> set (splitOn sep (a @ t))"
  by (cases t) (auto simp: splitOn_append_sep simp del: splitOn.simps)

lemma dropTrailing_decomp:
  "\<exists>t. s = dropTrailing P s @ t \<and> (\<forall>c \<in> set t. P c)"
proof -
  have "s = dropTrailing P s @ rev (takeWhile P (rev s))"
    unfolding dropTrailing_def
    by (metis rev_append rev_rev_ident takeWhile_dropWhile_id)
  moreover have "\<forall>c \<in> set (rev (takeWhile P (rev s))). P c"
    by (auto dest: set_takeWhileD)
  ultimately show ?thesis by blast
qed

lemma splitOn_dropTrailing_subset:
  "set (splitOn sep (dropTrailing (\<lambda>c. c = sep) s)) \<subseteq> set (splitOn sep s)"
proof -
  obtain t where t: "s = dropTrailing (\<lambda>c. c = sep) s @ t" "\<forall>c \<in> set t. c = sep"
    using dropTrailing_decomp [of s "\<lambda>c. c = sep"] by blast
  show ?thesis using splitOn_append_seps [OF t(2), of "dropTrailing (\<lambda>c. c = sep) s"] t(1)
    by simp
qed

lemma dropTrailing_append:
  "dropTrailing P (a @ b) = (if dropTrailing P b = [] then dropTrailing P a else a @ dropTrailing P b)"
  by (auto simp: dropTrailing_def dropWhile_append)

lemma dropTrailing_last: "dropTrailing P s \<noteq> [] \<Longrightarrow> \<not> P (last (dropTrailing P s))"
  unfolding dropTrailing_def
  by (metis dropWhile_eq_Nil_conv hd_dropWhile last_rev rev_is_Nil_conv set_rev)

subsection \<open>Hidden parts\<close>

lemma hidden_first: "startsWith p ''.'' \<Longrightarrow> sep \<noteq> CHR ''.'' \<Longrightarrow> hasHiddenPart sep p"
  by (cases p) (auto simp: hasHiddenPart_def startsWith_def list_ex_iff splitOn_Cons_other
      simp del: splitOn.simps)

lemma hidden_inner:
  assumes "sep \<noteq> CHR ''.''"
  shows "hasHiddenPart sep (a @ sep # CHR ''.'' # b)"
proof -
  have "startsWith (hd (splitOn sep (CHR ''.'' # b))) ''.''"
    using assms by (simp add: splitOn_Cons_other startsWith_def del: splitOn.simps)
  moreover have "hd (splitOn sep (CHR ''.'' # b)) \<in> set (splitOn sep (CHR ''.'' # b))"
    using splitOn_nonempty by (intro hd_in_set) 
  ultimately show ?thesis
    by (auto simp: hasHiddenPart_def list_ex_iff splitOn_append_sep simp del: splitOn.simps)
qed

lemma hd_hidden: "startsWith (hd (splitOn sep p)) ''.'' \<Longrightarrow> startsWith p ''.''"
proof (cases p)
  case Nil
  assume "startsWith (hd (splitOn sep p)) ''.''"
  with Nil show ?thesis by (simp add: startsWith_def)
next
  case (Cons x q)
  assume h: "startsWith (hd (splitOn sep p)) ''.''"
  show ?thesis
  proof (cases "x = sep")
    case True
    with h Cons show ?thesis by (simp add: startsWith_def)
  next
    case False
    with h Cons show ?thesis
      by (simp add: splitOn_Cons_other startsWith_def del: splitOn.simps)
  qed
qed

lemma tl_hidden:
  "\<exists>part \<in> set (tl (splitOn sep p)). startsWith part ''.''
   \<Longrightarrow> \<exists>a b. p = a @ sep # CHR ''.'' # b"
proof (induction p)
  case Nil
  then show ?case by simp
next
  case (Cons c p)
  show ?case
  proof (cases "c = sep")
    case False
    with Cons.prems have "\<exists>part \<in> set (tl (splitOn sep p)). startsWith part ''.''"
      by (simp add: splitOn_Cons_other del: splitOn.simps)
    with Cons.IH obtain a b where "p = a @ sep # CHR ''.'' # b" by blast
    then have "c # p = (c # a) @ sep # CHR ''.'' # b" by simp
    then show ?thesis by blast
  next
    case True
    with Cons.prems obtain part where part: "part \<in> set (splitOn sep p)" "startsWith part ''.''"
      by auto
    have "splitOn sep p = hd (splitOn sep p) # tl (splitOn sep p)"
      using splitOn_nonempty [of sep p] by simp
    with part(1) have "part = hd (splitOn sep p) \<or> part \<in> set (tl (splitOn sep p))"
      by (cases "splitOn sep p") auto
    then show ?thesis
    proof
      assume "part = hd (splitOn sep p)"
      with part(2) have "startsWith p ''.''" by (simp add: hd_hidden)
      then obtain b where "p = CHR ''.'' # b" by (cases p) (auto simp: startsWith_def)
      then have "c # p = [] @ sep # CHR ''.'' # b" using True by simp
      then show ?thesis by blast
    next
      assume "part \<in> set (tl (splitOn sep p))"
      with part(2) Cons.IH obtain a b where "p = a @ sep # CHR ''.'' # b" by blast
      then have "c # p = (c # a) @ sep # CHR ''.'' # b" by simp
      then show ?thesis by blast
    qed
  qed
qed

lemma hasHiddenPart_iff:
  assumes "sep \<noteq> CHR ''.''"
  shows "hasHiddenPart sep p
         = (startsWith p ''.'' \<or> (\<exists>a b. p = a @ sep # CHR ''.'' # b))"
proof
  assume "hasHiddenPart sep p"
  then obtain part where part: "part \<in> set (splitOn sep p)" "startsWith part ''.''"
    by (auto simp: hasHiddenPart_def list_ex_iff)
  have "splitOn sep p = hd (splitOn sep p) # tl (splitOn sep p)"
    using splitOn_nonempty [of sep p] by simp
  with part(1) have "part = hd (splitOn sep p) \<or> part \<in> set (tl (splitOn sep p))"
    by (cases "splitOn sep p") auto
  then show "startsWith p ''.'' \<or> (\<exists>a b. p = a @ sep # CHR ''.'' # b)"
  proof
    assume "part = hd (splitOn sep p)"
    with part(2) show ?thesis by (simp add: hd_hidden)
  next
    assume "part \<in> set (tl (splitOn sep p))"
    with part(2) have "\<exists>part \<in> set (tl (splitOn sep p)). startsWith part ''.''" by blast
    then show ?thesis by (simp add: tl_hidden)
  qed
next
  assume "startsWith p ''.'' \<or> (\<exists>a b. p = a @ sep # CHR ''.'' # b)"
  then show "hasHiddenPart sep p"
  proof
    assume "startsWith p ''.''"
    then show ?thesis using assms by (rule hidden_first)
  next
    assume "\<exists>a b. p = a @ sep # CHR ''.'' # b"
    then obtain a b where "p = a @ sep # CHR ''.'' # b" by blast
    then show ?thesis using hidden_inner [OF assms] by simp
  qed
qed

text \<open>
  Claim C5. For every list of patterns, the empty one too, every relative path and both
  values of the directory flag, \<^verbatim>\<open>shouldIgnore\<close> returns true whenever a part of the
  path, split at the path separator, starts with a dot; this holds for every matcher.
\<close>

theorem hidden_part_ignored:
  assumes "\<exists>part \<in> set (splitOn sep relativePath). startsWith part ''.''"
  shows "shouldIgnore sep mm patterns relativePath isDirectory"
  using assms by (simp add: shouldIgnore_def hasHiddenPart_def list_ex_iff)

text \<open>
  Witness for C5: \<open>src/.cache/data.json\<close> has the part \<open>.cache\<close> and is ignored with
  no pattern and with a negation that names its directory.
\<close>

theorem hidden_part_ignored_witness:
  "(\<exists>part \<in> set (splitOn CHR ''/'' ''src/.cache/data.json''). startsWith part ''.'')
   \<and> shouldIgnore CHR ''/'' minimatch [] ''src/.cache/data.json'' False
   \<and> shouldIgnore CHR ''/'' minimatch [''!src/.cache/''] ''src/.cache/data.json'' False"
proof -
  have h: "\<exists>part \<in> set (splitOn CHR ''/'' ''src/.cache/data.json''). startsWith part ''.''"
    by (simp add: startsWith_def)
  show ?thesis
    using h hidden_part_ignored [OF h, of minimatch "[]" False]
      hidden_part_ignored [OF h, of minimatch "[''!src/.cache/'']" False]
    by simp
qed

subsection \<open>Patterns that never match\<close>

lemma dropTrailing_Cons_keep:
  "\<not> P c \<Longrightarrow> dropTrailing P (c # s) = c # dropTrailing P s"
  by (simp add: dropTrailing_def dropWhile_append)

lemma trim_bang:
  assumes "startsWith raw ''!''"
  shows "startsWith (trim raw) ''!''"
proof -
  from assms obtain r where r: "raw = CHR ''!'' # r"
    by (cases raw) (auto simp: startsWith_def)
  have "\<not> isWhiteSpace CHR ''!''" by (simp add: isWhiteSpace_def)
  then show ?thesis
    by (simp add: r trim_def dropTrailing_Cons_keep startsWith_def)
qed

lemma inert_never_matches:
  assumes "inertPattern rawPattern"
  shows "\<not> matchGitignorePattern mm normalizedPath pathWithSlash rawPattern isDirectory"
proof (cases "rawPattern = [] \<or> startsWith rawPattern ''#''")
  case True
  then show ?thesis by (simp add: matchGitignorePattern_def)
next
  case False
  with assms have "startsWith rawPattern ''!''" by (simp add: inertPattern_def)
  then have "startsWith (trim rawPattern) ''!''" by (rule trim_bang)
  with False show ?thesis by (simp add: matchGitignorePattern_def Let_def)
qed

lemma matchAny_iff:
  "matchAnyPattern mm np pc d ps = (\<exists>raw \<in> set ps. matchGitignorePattern mm np pc raw d)"
  by (induction ps) auto

lemma shouldIgnore_iff:
  "shouldIgnore sep mm ps p d =
     (hasHiddenPart sep p
      \<or> (normalizePath p \<noteq> []
          \<and> (\<exists>raw \<in> set ps. matchGitignorePattern mm (normalizePath p)
                 (if d then normalizePath p @ ''/'' else normalizePath p) raw d)))"
  by (cases ps) (simp_all add: shouldIgnore_def Let_def matchAny_iff)

text \<open>
  Claim C7. For every relative path and both values of the directory flag, a configured
  pattern that is the empty string, starts with \<open>#\<close> or starts with \<open>!\<close> never makes
  \<^verbatim>\<open>shouldIgnore\<close> return true: it matches no path, and taking it out of the list of
  patterns changes no result. With a list of such patterns only, \<^verbatim>\<open>shouldIgnore\<close>
  returns true exactly for the paths with a hidden part. This holds for every matcher.
\<close>

theorem inert_patterns:
  assumes "inertPattern rawPattern" and "list_all inertPattern patterns"
  shows "\<not> matchGitignorePattern mm normalizedPath pathWithSlash rawPattern isDirectory
       \<and> shouldIgnore sep mm (before @ rawPattern # after) relativePath isDirectory
           = shouldIgnore sep mm (before @ after) relativePath isDirectory
       \<and> shouldIgnore sep mm patterns relativePath isDirectory
           = hasHiddenPart sep relativePath"
proof (intro conjI)
  show "\<not> matchGitignorePattern mm normalizedPath pathWithSlash rawPattern isDirectory"
    using assms(1) by (rule inert_never_matches)
  show "shouldIgnore sep mm (before @ rawPattern # after) relativePath isDirectory
           = shouldIgnore sep mm (before @ after) relativePath isDirectory"
    using inert_never_matches [OF assms(1)] by (auto simp: shouldIgnore_iff)
  show "shouldIgnore sep mm patterns relativePath isDirectory = hasHiddenPart sep relativePath"
    using assms(2) inert_never_matches by (auto simp: shouldIgnore_iff list_all_iff)
qed

text \<open>
  Witness for C7: with the patterns \<open>''\<close>, \<open># build\<close> and \<open>!src/keep.ts\<close> the path
  \<open>src/keep.ts\<close> is not ignored and the path \<open>.git/config\<close> is; without the negation
  nothing changes.
\<close>

theorem inert_patterns_witness:
  "inertPattern ''!src/keep.ts''
   \<and> list_all inertPattern ['''', ''# build'', ''!src/keep.ts'']
   \<and> \<not> matchGitignorePattern minimatch ''src/keep.ts'' ''src/keep.ts'' ''!src/keep.ts'' False
   \<and> shouldIgnore CHR ''/'' minimatch ([''*.log''] @ ''!src/keep.ts'' # []) ''src/keep.ts'' False
       = shouldIgnore CHR ''/'' minimatch ([''*.log''] @ []) ''src/keep.ts'' False
   \<and> \<not> shouldIgnore CHR ''/'' minimatch ['''', ''# build'', ''!src/keep.ts''] ''src/keep.ts'' False
   \<and> shouldIgnore CHR ''/'' minimatch ['''', ''# build'', ''!src/keep.ts''] ''.git/config'' False"
proof -
  have i: "inertPattern ''!src/keep.ts''" by (simp add: inertPattern_def startsWith_def)
  have l: "list_all inertPattern ['''', ''# build'', ''!src/keep.ts'']"
    by (simp add: inertPattern_def startsWith_def)
  have h1: "\<not> hasHiddenPart CHR ''/'' ''src/keep.ts''"
    by (simp add: hasHiddenPart_def startsWith_def)
  have h2: "hasHiddenPart CHR ''/'' ''.git/config''"
    by (simp add: hasHiddenPart_def startsWith_def)
  note t1 = inert_patterns [OF i l, where mm = minimatch and normalizedPath = "''src/keep.ts''"
      and pathWithSlash = "''src/keep.ts''" and isDirectory = False and sep = "CHR ''/''"
      and before = "[''*.log'']" and after = "[]" and relativePath = "''src/keep.ts''"]
  note t2 = inert_patterns [OF i l, where mm = minimatch and normalizedPath = "''src/keep.ts''"
      and pathWithSlash = "''src/keep.ts''" and isDirectory = False and sep = "CHR ''/''"
      and before = "[''*.log'']" and after = "[]" and relativePath = "''.git/config''"]
  show ?thesis using i l h1 h2 t1 t2 by simp
qed

subsection \<open>The matcher on the cases of synchronizer.test.ts\<close>

text \<open>
  The test suite of the repository runs \<^verbatim>\<open>shouldIgnore\<close> with the real library. The
  model of the library gives the verdict each test expects.
\<close>

lemma test_root_relative:
  "posixIgnore [''/public/app'', ''/public/js'', ''/.tmp/''] ''public/app'' True"
  "posixIgnore [''/public/app'', ''/public/js'', ''/.tmp/''] ''public/app/bundle.js'' False"
  "posixIgnore [''/public/app'', ''/public/js'', ''/.tmp/''] ''public/app/chunks/vendor.js'' False"
  "\<not> posixIgnore [''/public/app'', ''/public/js'', ''/.tmp/''] ''src/public/app'' True"
  "posixIgnore [''/public/app'', ''/public/js'', ''/.tmp/''] ''public/js'' True"
  "posixIgnore [''/public/app'', ''/public/js'', ''/.tmp/''] ''public/js/main.js'' False"
  "posixIgnore [''/public/app'', ''/public/js'', ''/.tmp/''] ''.tmp'' True"
  "posixIgnore [''/public/app'', ''/public/js'', ''/.tmp/''] ''.tmp/cache/file.txt'' False"
  by code_simp+

lemma test_directory_patterns:
  "posixIgnore [''node_modules/'', ''dist/'', ''.cache/''] ''node_modules'' True"
  "posixIgnore [''node_modules/'', ''dist/'', ''.cache/''] ''node_modules/lodash/index.js'' False"
  "posixIgnore [''node_modules/'', ''dist/'', ''.cache/''] ''packages/core/node_modules'' True"
  "posixIgnore [''node_modules/'', ''dist/'', ''.cache/''] ''dist'' True"
  "posixIgnore [''node_modules/'', ''dist/'', ''.cache/''] ''dist/index.js'' False"
  by code_simp+

lemma test_globstar:
  "posixIgnore [''**/*.log'', ''build/**'', ''.next/**''] ''error.log'' False"
  "posixIgnore [''**/*.log'', ''build/**'', ''.next/**''] ''logs/error.log'' False"
  "posixIgnore [''**/*.log'', ''build/**'', ''.next/**''] ''deep/nested/path/debug.log'' False"
  "posixIgnore [''**/*.log'', ''build/**'', ''.next/**''] ''build'' True"
  "posixIgnore [''**/*.log'', ''build/**'', ''.next/**''] ''build/index.js'' False"
  "posixIgnore [''**/*.log'', ''build/**'', ''.next/**''] ''build/assets/style.css'' False"
  "posixIgnore [''**/*.log'', ''build/**'', ''.next/**''] ''.next'' True"
  "posixIgnore [''**/*.log'', ''build/**'', ''.next/**''] ''.next/cache'' True"
  "posixIgnore [''**/*.log'', ''build/**'', ''.next/**''] ''.next/static/chunks/main.js'' False"
  by code_simp+

lemma test_hmr:
  "posixIgnore [''*.hot-update.js'', ''*.hot-update.json'', ''*.hot-update.js.map'']
     ''main.abc123.hot-update.js'' False"
  "posixIgnore [''*.hot-update.js'', ''*.hot-update.json'', ''*.hot-update.js.map'']
     ''abc123.hot-update.json'' False"
  "posixIgnore [''*.hot-update.js'', ''*.hot-update.json'', ''*.hot-update.js.map'']
     ''main.abc123.hot-update.js.map'' False"
  "posixIgnore [''*.hot-update.js'', ''*.hot-update.json'', ''*.hot-update.js.map'']
     ''public/js/main.hot-update.js'' False"
  by code_simp+

lemma test_basename:
  "posixIgnore [''*.min.js'', ''*.bundle.css'', ''.env''] ''app.min.js'' False"
  "posixIgnore [''*.min.js'', ''*.bundle.css'', ''.env''] ''dist/vendor.min.js'' False"
  "posixIgnore [''*.min.js'', ''*.bundle.css'', ''.env''] ''styles.bundle.css'' False"
  "posixIgnore [''*.min.js'', ''*.bundle.css'', ''.env''] ''public/css/main.bundle.css'' False"
  "posixIgnore [''*.min.js'', ''*.bundle.css'', ''.env''] ''.env'' False"
  by code_simp+

lemma test_real_world:
  "\<not> posixIgnore [''/.tmp/'', ''/public/app'', ''/public/carousel'', ''/public/css'',
       ''/public/js'', ''/public/messages'', ''/node_modules'', ''*.log''] ''src/index.ts'' False"
  "\<not> posixIgnore [''/.tmp/'', ''/public/app'', ''/public/carousel'', ''/public/css'',
       ''/public/js'', ''/public/messages'', ''/node_modules'', ''*.log''] ''assets/js/main.js'' False"
  "\<not> posixIgnore [''/.tmp/'', ''/public/app'', ''/public/carousel'', ''/public/css'',
       ''/public/js'', ''/public/messages'', ''/node_modules'', ''*.log''] ''react-app/backend.jsx'' False"
  "posixIgnore [''/.tmp/'', ''/public/app'', ''/public/carousel'', ''/public/css'',
       ''/public/js'', ''/public/messages'', ''/node_modules'', ''*.log''] ''error.log'' False"
  "posixIgnore [''/.tmp/'', ''/public/app'', ''/public/carousel'', ''/public/css'',
       ''/public/js'', ''/public/messages'', ''/node_modules'', ''*.log'']
     ''htdocs/app/tmp/logs/debug.log'' False"
  "posixIgnore [''/.tmp/'', ''/public/app'', ''/public/carousel'', ''/public/css'',
       ''/public/js'', ''/public/messages'', ''/node_modules'', ''*.log''] ''public/css/main.css'' False"
  by code_simp+


subsection \<open>The root-relative pattern /public/app\<close>

lemma trim_public_app: "trim ''/public/app'' = ''/public/app''"
  by (simp add: trim_def dropTrailing_def isWhiteSpace_def)

lemma mgp_public_app:
  "matchGitignorePattern minimatch np pws ''/public/app'' d =
     (matchOne rootOpts (splitSlashes np) [''public'', ''app'']
      \<or> matchOne rootOpts (splitSlashes np) [''public'', ''app'', ''**''])"
  by (simp add: matchGitignorePattern_def trim_public_app startsWith_def endsWith_def
      includesChar_def minimatch_def Let_def rootOpts_def)

lemma dotted_rootOpts: "dotted rootOpts f = startsWith f ''.''"
  by (auto simp: dotted_def rootOpts_def startsWith_def)

lemma matchOne_globstar_end:
  "matchOne opts fs [''**''] = (fs \<noteq> [] \<and> list_all (\<lambda>x. \<not> dotted opts x) fs)"
  by (cases fs) simp_all

lemma inside_public_app:
  assumes sl: "map (\<lambda>c. if c = backslash then CHR ''/'' else c) p = ''public/app/'' @ rest"
      and seen: "hasHiddenPart sep p \<or> \<not> hasHiddenPart CHR ''/'' rest"
  shows "shouldIgnore sep minimatch [''/public/app''] p d"
proof (cases "hasHiddenPart sep p")
  case True
  then show ?thesis by (simp add: shouldIgnore_def)
next
  case False
  let ?sl = "\<lambda>c. c = CHR ''/''"
  define P where "P = ''public/app/''"
  define r where "r = dropTrailing ?sl rest"
  have mp: "map (\<lambda>c. if c = backslash then CHR ''/'' else c) p = P @ rest"
    using sl by (simp add: P_def)
  have dw: "dropWhile ?sl (P @ rest) = P @ rest" by (simp add: P_def)
  have dt: "dropTrailing ?sl P = ''public/app''" by (simp add: P_def dropTrailing_def)
  have "normalizePath p = dropTrailing ?sl (P @ rest)"
    unfolding normalizePath_def Let_def mp dw ..
  then have np: "normalizePath p = (if r = [] then ''public/app'' else P @ r)"
    by (simp only: dropTrailing_append dt r_def)
  have "P \<noteq> []" by (simp add: P_def)
  then have ne: "normalizePath p \<noteq> []" by (simp add: np)
  have nh: "\<forall>part \<in> set (splitOn CHR ''/'' rest). \<not> startsWith part ''.''"
    using seen False by (simp add: hasHiddenPart_def list_ex_iff)
  have m: "matchGitignorePattern minimatch (normalizePath p) pws ''/public/app'' d" for pws
  proof (cases "r = []")
    case True
    then show ?thesis
      by (simp add: np mgp_public_app partMatches_def startsWith_def rootOpts_def)
  next
    case nonempty: False
    define q where "q = dropWhile ?sl r"
    have "\<not> ?sl (last r)" using nonempty dropTrailing_last [of ?sl rest] by (simp add: r_def)
    then have "\<exists>c \<in> set r. \<not> ?sl c" using nonempty last_in_set by blast
    then have q: "q \<noteq> []" by (simp add: q_def)
    have sp: "splitSlashes (P @ r) = ''public'' # ''app'' # splitSlashes q"
      by (simp add: P_def splitSlashes_Cons_other splitSlashes_Cons_slash q_def
          del: splitSlashes.simps)
    have "set (splitSlashes q) \<subseteq> set (splitOn CHR ''/'' q)" by (rule splitSlashes_subset)
    also have "\<dots> \<subseteq> set (splitOn CHR ''/'' r)"
      unfolding q_def by (rule splitOn_dropWhile_subset)
    also have "\<dots> \<subseteq> set (splitOn CHR ''/'' rest)"
      unfolding r_def by (rule splitOn_dropTrailing_subset)
    finally have "list_all (\<lambda>x. \<not> dotted rootOpts x) (splitSlashes q)"
      using nh by (auto simp: list_all_iff dotted_rootOpts)
    then have "matchOne rootOpts (splitSlashes q) [''**'']"
      using splitSlashes_nonempty [of q] by (simp add: matchOne_globstar_end)
    then have "matchOne rootOpts (''public'' # ''app'' # splitSlashes q)
                 [''public'', ''app'', ''**'']"
      by (simp add: partMatches_def startsWith_def)
    then show ?thesis using nonempty by (simp add: np mgp_public_app sp)
  qed
  show ?thesis using False ne m by (simp add: shouldIgnore_def Let_def)
qed

lemma public_app_itself:
  "shouldIgnore CHR ''/'' minimatch [''/public/app''] ''public/app'' d"
  by (simp add: shouldIgnore_def hasHiddenPart_def startsWith_def normalizePath_def
      dropTrailing_def backslash_def mgp_public_app partMatches_def Let_def)

lemma src_public_app:
  "\<not> shouldIgnore CHR ''/'' minimatch [''/public/app''] ''src/public/app'' d"
  by (simp add: shouldIgnore_def hasHiddenPart_def startsWith_def normalizePath_def
      dropTrailing_def backslash_def mgp_public_app partMatches_def Let_def)

text \<open>
  Away from the input below the code does what claim C6 says: a path whose normalized form
  lies under \<open>public/app\<close> is ignored, for either separator, unless the normalization
  makes a part that starts with a dot which the hidden-part check has not seen.
\<close>

lemma public_app_elsewhere:
  "shouldIgnore CHR ''/'' minimatch [''/public/app''] ''public/app'' True"
  "shouldIgnore CHR ''/'' minimatch [''/public/app''] ''public/app/bundle.js'' False"
  "shouldIgnore CHR ''/'' minimatch [''/public/app''] ''public/app/chunks/vendor.js'' False"
  "shouldIgnore CHR ''/'' minimatch [''/public/app''] (''public/app/a'' @ [CHR 0x5C] @ ''b'') False"
  "shouldIgnore CHR 0x5C minimatch [''/public/app'']
     (''public'' @ [CHR 0x5C] @ ''app'' @ [CHR 0x5C] @ ''bundle.js'') False"
  "\<not> shouldIgnore CHR ''/'' minimatch [''/public/app''] ''src/public/app'' True"
  by code_simp+


subsection \<open>deleteSnapshot\<close>

lemma deleteSnapshot_eq:
  "deleteSnapshot h codebasePath w =
     (case unlink h w (getSnapshotPath h codebasePath) of
        (None, w1) \<Rightarrow> (Inr (), w1)
      | (Some e, w1) \<Rightarrow> if code e = ''ENOENT'' then (Inr (), w1) else (Inl e, w1))"
  by (simp add: deleteSnapshot_def getSnapshotPath_def Let_def)

lemma memUnlink_missing:
  "map_of (files d) p = None \<Longrightarrow>
     unlink memHost d p
       = (Some \<lparr>code = ''ENOENT'', message = ''no such file or directory''\<rparr>, d)"
  by (simp add: memHost_def memUnlink_def)

text \<open>
  Claim C9. \<^verbatim>\<open>deleteSnapshot\<close> completes without error when the removal succeeds and
  when it fails because the snapshot file is missing (the error code \<^verbatim>\<open>ENOENT\<close>), and it
  hands every other failure of the removal to its caller. On the disk in memory, where a
  missing file makes the removal fail with \<^verbatim>\<open>ENOENT\<close>, deleting the snapshot of a root
  that has none completes without error and leaves the disk as it was.
\<close>

theorem deleteSnapshot_errors:
  assumes "unlink h w (getSnapshotPath h codebasePath) = (res, w1)"
  shows "(res = None \<longrightarrow> deleteSnapshot h codebasePath w = (Inr (), w1))
       \<and> (\<forall>e. res = Some e \<and> code e = ''ENOENT''
              \<longrightarrow> deleteSnapshot h codebasePath w = (Inr (), w1))
       \<and> (\<forall>e. res = Some e \<and> code e \<noteq> ''ENOENT''
              \<longrightarrow> deleteSnapshot h codebasePath w = (Inl e, w1))
       \<and> (map_of (files d) (getSnapshotPath memHost root) = None
              \<longrightarrow> deleteSnapshot memHost root d = (Inr (), d))"
  by (simp add: deleteSnapshot_eq assms memUnlink_missing)

text \<open>
  Witness for C9: on the empty disk the removal fails with \<^verbatim>\<open>ENOENT\<close> and
  \<^verbatim>\<open>deleteSnapshot\<close> returns normally; on the disk whose snapshot is protected the
  removal fails with \<^verbatim>\<open>EACCES\<close> and \<^verbatim>\<open>deleteSnapshot\<close> returns that error.
\<close>

theorem deleteSnapshot_errors_witness:
  "unlink memHost exDisk (getSnapshotPath memHost ''/repo'')
     = (Some \<lparr>code = ''ENOENT'', message = ''no such file or directory''\<rparr>, exDisk)
   \<and> deleteSnapshot memHost ''/repo'' exDisk = (Inr (), exDisk)
   \<and> unlink memHost exLocked (getSnapshotPath memHost ''/repo'')
     = (Some \<lparr>code = ''EACCES'', message = ''permission denied''\<rparr>, exLocked)
   \<and> deleteSnapshot memHost ''/repo'' exLocked
     = (Inl \<lparr>code = ''EACCES'', message = ''permission denied''\<rparr>, exLocked)"
proof -
  have u1: "unlink memHost exDisk (getSnapshotPath memHost ''/repo'')
     = (Some \<lparr>code = ''ENOENT'', message = ''no such file or directory''\<rparr>, exDisk)"
    unfolding ex_path by (simp add: memHost_def memUnlink_def exDisk_def)
  have u2: "unlink memHost exLocked (getSnapshotPath memHost ''/repo'')
     = (Some \<lparr>code = ''EACCES'', message = ''permission denied''\<rparr>, exLocked)"
    unfolding ex_path by (simp add: memHost_def memUnlink_def exLocked_def)
  note t1 = deleteSnapshot_errors [OF u1, of exDisk "''/repo''"]
  note t2 = deleteSnapshot_errors [OF u2, of exDisk "''/repo''"]
  show ?thesis using u1 u2 t1 t2 by simp
qed

end
